theory Spec2Isabelle
  imports
    Complex_Main
    "HOL-Library.AList"
    "HOL-Library.Char_ord"
    "HOL-Library.List_Lexorder"
    "HOL-Library.Multiset"
    "HOL-Library.Product_Lexorder"
begin

section \<open>Python strings\<close>

text \<open>
  The parser of \<^verbatim>\<open>advanced_arg_parser.py\<close> works on flag names, tokens and
  environment values. They are modelled as \<^typ>\<open>string\<close>; the characters are ASCII, so
  \<^verbatim>\<open>str.lower\<close> and \<^verbatim>\<open>str.upper\<close> change the 26 letters and nothing else.
\<close>

definition lower_char :: "char \<Rightarrow> char" where
  "lower_char c =
     (case map_of (zip ''ABCDEFGHIJKLMNOPQRSTUVWXYZ'' ''abcdefghijklmnopqrstuvwxyz'') c of
        Some d \<Rightarrow> d
      | None \<Rightarrow> c)"

definition upper_char :: "char \<Rightarrow> char" where
  "upper_char c =
     (case map_of (zip ''abcdefghijklmnopqrstuvwxyz'' ''ABCDEFGHIJKLMNOPQRSTUVWXYZ'') c of
        Some d \<Rightarrow> d
      | None \<Rightarrow> c)"

definition lower :: "string \<Rightarrow> string" where
  "lower s = map lower_char s"

definition upper :: "string \<Rightarrow> string" where
  "upper s = map upper_char s"

text \<open>\<^verbatim>\<open>s.startswith(p)\<close>.\<close>

fun startswith :: "string \<Rightarrow> string \<Rightarrow> bool" where
  "startswith s [] = True"
| "startswith [] (p # ps) = False"
| "startswith (c # cs) (p # ps) = (c = p \<and> startswith cs ps)"

text \<open>\<^verbatim>\<open>sub in s\<close>: \<open>sub\<close> occurs in \<open>s\<close> as a contiguous substring.\<close>

fun str_contains :: "string \<Rightarrow> string \<Rightarrow> bool" where
  "str_contains [] sub = (sub = [])"
| "str_contains (c # cs) sub = (startswith (c # cs) sub \<or> str_contains cs sub)"

text \<open>\<^verbatim>\<open>s.replace('-', '_')\<close>.\<close>

definition dash_to_underscore :: "string \<Rightarrow> string" where
  "dash_to_underscore s = map (\<lambda>c. if c = CHR ''-'' then CHR ''_'' else c) s"

text \<open>\<^verbatim>\<open>any(word in s for word in words)\<close>.\<close>

definition any_word_in :: "string list \<Rightarrow> string \<Rightarrow> bool" where
  "any_word_in words s = list_ex (\<lambda>word. str_contains s word) words"


section \<open>Unicode elimination: \<^verbatim>\<open>UnicodeEliminator.eliminate_unicode\<close>\<close>

text \<open>
  The normaliser sees every character Python can hold, so here a string is the list of its
  code points. The module tries to import three optional libraries and falls back to code
  of its own when an import fails; the libraries that are there, and the Unicode database
  behind \<^verbatim>\<open>unicodedata.normalize\<close>, are the record \<open>unicode_env\<close>.
\<close>

type_synonym ustring = "nat list"

text \<open>The character class of \<^verbatim>\<open>emoji_pattern\<close>, range by range as the source lists it.\<close>

definition emoji_char :: "nat \<Rightarrow> bool" where
  "emoji_char c \<longleftrightarrow>
     (0x1F600 \<le> c \<and> c \<le> 0x1F64F) \<or>
     (0x1F300 \<le> c \<and> c \<le> 0x1F5FF) \<or>
     (0x1F680 \<le> c \<and> c \<le> 0x1F6FF) \<or>
     (0x1F1E0 \<le> c \<and> c \<le> 0x1F1FF) \<or>
     (0x2700 \<le> c \<and> c \<le> 0x27BF) \<or>
     (0x1F926 \<le> c \<and> c \<le> 0x1F937) \<or>
     (0x10000 \<le> c \<and> c \<le> 0x10FFFF) \<or>
     (0x2640 \<le> c \<and> c \<le> 0x2642) \<or>
     (0x2600 \<le> c \<and> c \<le> 0x2B55) \<or>
     c = 0x200D \<or> c = 0x23CF \<or> c = 0x23E9 \<or> c = 0x231A \<or> c = 0xFE0F \<or> c = 0x3030"

text \<open>\<^verbatim>\<open>emoji_pattern.sub("", text)\<close>: every run of characters of the class is cut out.\<close>

definition emoji_pattern_sub :: "ustring \<Rightarrow> ustring" where
  "emoji_pattern_sub text = filter (\<lambda>c. \<not> emoji_char c) text"

text \<open>
  The characters of the whitespace class of a \<^verbatim>\<open>str\<close> pattern, which are also those
  that \<^verbatim>\<open>str.strip()\<close> removes: the characters of \<^verbatim>\<open>str.isspace\<close>.
\<close>

definition unicode_space :: "nat \<Rightarrow> bool" where
  "unicode_space c \<longleftrightarrow>
     (0x09 \<le> c \<and> c \<le> 0x0D) \<or> (0x1C \<le> c \<and> c \<le> 0x20) \<or>
     c = 0x85 \<or> c = 0xA0 \<or> c = 0x1680 \<or> (0x2000 \<le> c \<and> c \<le> 0x200A) \<or>
     c = 0x2028 \<or> c = 0x2029 \<or> c = 0x202F \<or> c = 0x205F \<or> c = 0x3000"

text \<open>
  The substitution \<^verbatim>\<open>re.sub\<close> of step 4: every maximal run of whitespace becomes one
  blank.
  The functions take the whitespace test and the blank as arguments, so that they serve
  code points and characters alike.
\<close>

function collapse_ws :: "('a \<Rightarrow> bool) \<Rightarrow> 'a \<Rightarrow> 'a list \<Rightarrow> 'a list" where
  "collapse_ws sp b [] = []"
| "collapse_ws sp b (c # cs) =
     (if sp c then b # collapse_ws sp b (dropWhile sp cs) else c # collapse_ws sp b cs)"
  by pat_completeness auto
termination
  by (relation "measure (\<lambda>(sp, b, cs). length cs)")
     (auto simp: less_Suc_eq_le length_dropWhile_le)

text \<open>\<^verbatim>\<open>text.strip()\<close>.\<close>

definition strip_ws :: "('a \<Rightarrow> bool) \<Rightarrow> 'a list \<Rightarrow> 'a list" where
  "strip_ws sp text = rev (dropWhile sp (rev (dropWhile sp text)))"

definition clean_whitespace :: "('a \<Rightarrow> bool) \<Rightarrow> 'a \<Rightarrow> 'a list \<Rightarrow> 'a list" where
  "clean_whitespace sp b text = strip_ws sp (collapse_ws sp b text)"

text \<open>\<^verbatim>\<open>.encode("ascii", "ignore").decode("ascii")\<close> keeps the code points below 128.\<close>

definition ascii_text :: "ustring \<Rightarrow> bool" where
  "ascii_text text \<longleftrightarrow> list_all (\<lambda>c. c < 128) text"

definition encode_ascii_ignore :: "ustring \<Rightarrow> ustring" where
  "encode_ascii_ignore text = filter (\<lambda>c. c < 128) text"

text \<open>
  A library that could not be imported is \<open>None\<close>
  (\<^verbatim>\<open>FTFY_AVAILABLE\<close>, \<^verbatim>\<open>EMOJI_AVAILABLE\<close>, \<^verbatim>\<open>UNIDECODE_AVAILABLE\<close> are false).
\<close>

record unicode_env =
  ftfy_fix_text :: "(ustring \<Rightarrow> ustring) option"
  emoji_replace_emoji :: "(ustring \<Rightarrow> ustring) option"
  unidecode_unidecode :: "(ustring \<Rightarrow> ustring) option"
  unicodedata_nfkd :: "ustring \<Rightarrow> ustring"

text \<open>
  \<^verbatim>\<open>eliminate_unicode(text)\<close> for a \<^verbatim>\<open>str\<close>, with the two flags of the instance:
  fix the encoding, remove emoji, convert to ASCII, clean up whitespace.
\<close>

definition eliminate_unicode :: "unicode_env \<Rightarrow> bool \<Rightarrow> bool \<Rightarrow> ustring \<Rightarrow> ustring" where
  "eliminate_unicode E aggressive ascii_only text =
     (let text1 = (case ftfy_fix_text E of Some fix \<Rightarrow> fix text | None \<Rightarrow> text);
          text2 = (case emoji_replace_emoji E of
                     Some replace_emoji \<Rightarrow> replace_emoji text1
                   | None \<Rightarrow> emoji_pattern_sub text1);
          text3 = (case unidecode_unidecode E of
                     Some unidecode \<Rightarrow>
                       if ascii_only then unidecode text2
                       else if aggressive then encode_ascii_ignore (unicodedata_nfkd E text2)
                       else text2
                   | None \<Rightarrow>
                       if aggressive then encode_ascii_ignore (unicodedata_nfkd E text2)
                       else text2)
      in clean_whitespace unicode_space 0x20 text3)"

subsection \<open>Whitespace clean-up is idempotent\<close>

text \<open>
  A text is tidy when its only whitespace is single blanks. Collapsing makes a text tidy,
  and a tidy text that neither starts nor ends with a blank is left as it is.
\<close>

fun tidy :: "('a \<Rightarrow> bool) \<Rightarrow> 'a \<Rightarrow> 'a list \<Rightarrow> bool" where
  "tidy sp b [] = True"
| "tidy sp b (c # cs) =
     ((sp c \<longrightarrow> c = b \<and> (case cs of [] \<Rightarrow> True | d # ds \<Rightarrow> \<not> sp d)) \<and> tidy sp b cs)"

lemma collapse_ws_head:
  "\<not> sp c \<Longrightarrow> collapse_ws sp b (c # cs) = c # collapse_ws sp b cs"
  by simp

lemma tidy_collapse_ws: "tidy sp b (collapse_ws sp b str)"
proof (induction sp b str rule: collapse_ws.induct)
  case (1 sp b)
  then show ?case by simp
next
  case (2 sp b c cs)
  show ?case
  proof (cases "sp c")
    case True
    have "case collapse_ws sp b (dropWhile sp cs) of [] \<Rightarrow> True | d # ds \<Rightarrow> \<not> sp d"
    proof (cases "dropWhile sp cs")
      case Nil
      show ?thesis unfolding Nil by simp
    next
      case (Cons d ds)
      then have "\<not> sp d" by (metis hd_dropWhile list.sel(1) list.distinct(1))
      then show ?thesis unfolding Cons by simp
    qed
    with True 2 show ?thesis by simp
  next
    case False
    with 2 show ?thesis by simp
  qed
qed

lemma collapse_ws_tidy: "tidy sp b str \<Longrightarrow> collapse_ws sp b str = str"
proof (induction sp b str rule: collapse_ws.induct)
  case (1 sp b)
  then show ?case by simp
next
  case (2 sp b c cs)
  show ?case
  proof (cases "sp c")
    case True
    with "2.prems" have cb: "c = b" and nxt: "case cs of [] \<Rightarrow> True | d # ds \<Rightarrow> \<not> sp d"
      and rest: "tidy sp b cs" by simp_all
    from nxt have dw: "dropWhile sp cs = cs" by (cases cs) simp_all
    with True rest "2.IH"(1) have "collapse_ws sp b (dropWhile sp cs) = cs" by simp
    with True cb show ?thesis by simp
  next
    case False
    with 2 show ?thesis by simp
  qed
qed

lemma tidy_append_left: "tidy sp b (xs @ ys) \<Longrightarrow> tidy sp b xs"
proof (induction xs)
  case Nil
  then show ?case by simp
next
  case (Cons x xs)
  then show ?case by (cases xs) auto
qed

lemma tidy_dropWhile: "tidy sp b xs \<Longrightarrow> tidy sp b (dropWhile sp xs)"
proof (induction xs)
  case Nil
  then show ?case by simp
next
  case (Cons x xs)
  then show ?case by (cases "sp x") simp_all
qed

lemma strip_ws_prefix: "\<exists>zs. dropWhile sp str = strip_ws sp str @ zs"
proof -
  have "rev (dropWhile sp str) =
          takeWhile sp (rev (dropWhile sp str)) @ dropWhile sp (rev (dropWhile sp str))"
    by simp
  then have "dropWhile sp str =
          rev (dropWhile sp (rev (dropWhile sp str))) @ rev (takeWhile sp (rev (dropWhile sp str)))"
    by (metis rev_append rev_rev_ident)
  then show ?thesis unfolding strip_ws_def by blast
qed

lemma tidy_strip_ws: "tidy sp b str \<Longrightarrow> tidy sp b (strip_ws sp str)"
  using strip_ws_prefix [of sp str] tidy_dropWhile [of sp b str] tidy_append_left
  by metis

lemma strip_ws_first: "strip_ws sp str = c # cs \<Longrightarrow> \<not> sp c"
proof -
  assume a: "strip_ws sp str = c # cs"
  obtain zs where "dropWhile sp str = strip_ws sp str @ zs"
    using strip_ws_prefix by blast
  with a have "dropWhile sp str = c # (cs @ zs)" by simp
  then show "\<not> sp c" by (metis hd_dropWhile list.sel(1) list.distinct(1))
qed

lemma strip_ws_last: "rev (strip_ws sp str) = c # cs \<Longrightarrow> \<not> sp c"
  unfolding strip_ws_def
  by (metis hd_dropWhile list.sel(1) list.distinct(1) rev_rev_ident)

lemma strip_ws_strip_ws: "strip_ws sp (strip_ws sp str) = strip_ws sp str"
proof -
  let ?r = "strip_ws sp str"
  have 1: "dropWhile sp ?r = ?r"
    by (cases ?r) (use strip_ws_first in \<open>fastforce+\<close>)
  have 2: "dropWhile sp (rev ?r) = rev ?r"
    by (cases "rev ?r") (use strip_ws_last in \<open>fastforce+\<close>)
  show ?thesis
    by (subst (1) strip_ws_def) (simp add: 1 2)
qed

lemma clean_whitespace_idem:
  "clean_whitespace sp b (clean_whitespace sp b str) = clean_whitespace sp b str"
  unfolding clean_whitespace_def
  by (simp add: collapse_ws_tidy tidy_strip_ws tidy_collapse_ws strip_ws_strip_ws)

lemma set_collapse_ws: "set (collapse_ws sp b str) \<subseteq> insert b (set str)"
proof (induction sp b str rule: collapse_ws.induct)
  case (1 sp b)
  then show ?case by simp
next
  case (2 sp b c cs)
  have "set (dropWhile sp cs) \<subseteq> set cs" by (simp add: set_dropWhileD subsetI)
  with 2 show ?case by (cases "sp c") auto
qed

lemma set_strip_ws: "set (strip_ws sp str) \<subseteq> set str"
proof
  fix x assume "x \<in> set (strip_ws sp str)"
  then have "x \<in> set (rev (dropWhile sp str))"
    unfolding strip_ws_def by (auto dest: set_dropWhileD)
  then show "x \<in> set str" by (auto dest: set_dropWhileD)
qed

lemma set_clean_whitespace: "set (clean_whitespace sp b str) \<subseteq> insert b (set str)"
  unfolding clean_whitespace_def using set_collapse_ws set_strip_ws by fast


subsection \<open>Idempotence of the normaliser\<close>

text \<open>What the theorem asks of the libraries that are installed.\<close>

definition keeps_ascii :: "(ustring \<Rightarrow> ustring) option \<Rightarrow> bool" where
  "keeps_ascii lib = (case lib of None \<Rightarrow> True | Some f \<Rightarrow> (\<forall>s. ascii_text s \<longrightarrow> f s = s))"

definition libraries_keep_ascii :: "unicode_env \<Rightarrow> bool" where
  "libraries_keep_ascii E \<longleftrightarrow>
     keeps_ascii (ftfy_fix_text E) \<and>
     keeps_ascii (emoji_replace_emoji E) \<and>
     keeps_ascii (unidecode_unidecode E) \<and>
     (case unidecode_unidecode E of None \<Rightarrow> True | Some f \<Rightarrow> (\<forall>s. ascii_text (f s))) \<and>
     (\<forall>s. ascii_text s \<longrightarrow> unicodedata_nfkd E s = s)"

lemma emoji_pattern_sub_id: "(\<And>c. c \<in> set s \<Longrightarrow> \<not> emoji_char c) \<Longrightarrow> emoji_pattern_sub s = s"
  unfolding emoji_pattern_sub_def by (induction s) simp_all

lemma ascii_not_emoji: "c < 128 \<Longrightarrow> \<not> emoji_char c"
  by (simp add: emoji_char_def)

lemma emoji_pattern_sub_ascii: "ascii_text s \<Longrightarrow> emoji_pattern_sub s = s"
  by (rule emoji_pattern_sub_id) (simp add: ascii_text_def list_all_iff ascii_not_emoji)

lemma encode_ascii_ignore_ascii: "ascii_text s \<Longrightarrow> encode_ascii_ignore s = s"
  unfolding encode_ascii_ignore_def ascii_text_def by (induction s) simp_all

lemma ascii_encode_ascii_ignore: "ascii_text (encode_ascii_ignore s)"
  by (simp add: encode_ascii_ignore_def ascii_text_def list_all_iff)

lemma ascii_clean_whitespace:
  assumes "ascii_text s"
  shows "ascii_text (clean_whitespace unicode_space 0x20 s)"
proof -
  have "c < 128" if "c \<in> set (clean_whitespace unicode_space 0x20 s)" for c
  proof -
    from that set_clean_whitespace have "c \<in> insert 0x20 (set s)" by fast
    with assms show ?thesis by (auto simp: ascii_text_def list_all_iff)
  qed
  then show ?thesis by (simp add: ascii_text_def list_all_iff)
qed

lemma eliminate_unicode_ascii:
  assumes "libraries_keep_ascii E" and "ascii_text s"
  shows "eliminate_unicode E aggressive ascii_only s = clean_whitespace unicode_space 0x20 s"
  using assms
  by (auto simp: eliminate_unicode_def libraries_keep_ascii_def keeps_ascii_def
        emoji_pattern_sub_ascii encode_ascii_ignore_ascii split: option.splits)

lemma eliminate_unicode_plain:
  assumes "ftfy_fix_text E = None" and "emoji_replace_emoji E = None"
    and "\<not> aggressive" and "\<not> (ascii_only \<and> unidecode_unidecode E \<noteq> None)"
  shows "eliminate_unicode E aggressive ascii_only s =
           clean_whitespace unicode_space 0x20 (emoji_pattern_sub s)"
  using assms by (cases "unidecode_unidecode E") (auto simp: eliminate_unicode_def Let_def)

lemma emoji_pattern_sub_clean_whitespace:
  "emoji_pattern_sub (clean_whitespace unicode_space 0x20 (emoji_pattern_sub s)) =
     clean_whitespace unicode_space 0x20 (emoji_pattern_sub s)"
proof (rule emoji_pattern_sub_id)
  fix c assume "c \<in> set (clean_whitespace unicode_space 0x20 (emoji_pattern_sub s))"
  with set_clean_whitespace have "c \<in> insert 0x20 (set (emoji_pattern_sub s))" by fast
  then show "\<not> emoji_char c"
    by (auto simp: emoji_pattern_sub_def emoji_char_def)
qed

text \<open>
  C9. Text normalisation is idempotent: for every string \<open>s\<close>, normalising the result of
  normalising \<open>s\<close> gives the same string as normalising \<open>s\<close> once. The optional
  libraries and the Unicode database are not part of the module; what is asked of them is
  that they leave ASCII text alone and that \<^verbatim>\<open>unidecode\<close> returns ASCII text. With
  none of the optional libraries installed only the condition on NFKD is left.
\<close>

theorem eliminate_unicode_idempotent:
  assumes libs: "libraries_keep_ascii E"
    and conf: "aggressive \<or> (ascii_only \<and> unidecode_unidecode E \<noteq> None) \<or>
               (ftfy_fix_text E = None \<and> emoji_replace_emoji E = None)"
  shows "eliminate_unicode E aggressive ascii_only (eliminate_unicode E aggressive ascii_only s) =
           eliminate_unicode E aggressive ascii_only s"
proof (cases "aggressive \<or> (ascii_only \<and> unidecode_unidecode E \<noteq> None)")
  case step3: True
  obtain s3 where out: "eliminate_unicode E aggressive ascii_only s =
                          clean_whitespace unicode_space 0x20 s3" and s3: "ascii_text s3"
  proof (cases "ascii_only \<and> unidecode_unidecode E \<noteq> None")
    case True
    then obtain f where f: "unidecode_unidecode E = Some f" and ao: ascii_only by auto
    from libs f have "\<forall>u. ascii_text (f u)" by (simp add: libraries_keep_ascii_def)
    with f ao that show ?thesis by (simp add: eliminate_unicode_def Let_def)
  next
    case False
    with step3 have aggressive by blast
    with False that show ?thesis
      by (cases "unidecode_unidecode E")
         (simp_all add: eliminate_unicode_def Let_def ascii_encode_ascii_ignore)
  qed
  from s3 have "ascii_text (clean_whitespace unicode_space 0x20 s3)"
    by (rule ascii_clean_whitespace)
  with libs show ?thesis
    by (simp add: out eliminate_unicode_ascii clean_whitespace_idem)
next
  case False
  with conf have plain: "ftfy_fix_text E = None" "emoji_replace_emoji E = None"
    "\<not> aggressive" "\<not> (ascii_only \<and> unidecode_unidecode E \<noteq> None)" by auto
  have eq: "eliminate_unicode E aggressive ascii_only u =
              clean_whitespace unicode_space 0x20 (emoji_pattern_sub u)" for u
    using plain by (rule eliminate_unicode_plain)
  show ?thesis
    by (simp only: eq emoji_pattern_sub_clean_whitespace clean_whitespace_idem)
qed

text \<open>
  The module as it runs with none of the optional libraries installed. Of the NFKD
  decomposition only that of U+00E9 is written out.
\<close>

definition stdlib_only_env :: unicode_env where
  "stdlib_only_env =
     \<lparr>ftfy_fix_text = None, emoji_replace_emoji = None, unidecode_unidecode = None,
      unicodedata_nfkd = (\<lambda>s. concat (map (\<lambda>c. if c = 0xE9 then [0x65, 0x301] else [c]) s))\<rparr>"

lemma stdlib_only_env_keeps_ascii: "libraries_keep_ascii stdlib_only_env"
proof -
  have "ascii_text s \<Longrightarrow>
          concat (map (\<lambda>c. if c = 0xE9 then [0x65, 0x301] else [c]) s) = s" for s :: ustring
    by (induction s) (auto simp: ascii_text_def)
  then show ?thesis
    by (simp add: libraries_keep_ascii_def keeps_ascii_def stdlib_only_env_def)
qed

theorem eliminate_unicode_idempotent_witness:
  "eliminate_unicode stdlib_only_env True True
     [0x20, 0x20, 0x43, 0x61, 0x66, 0xE9, 0x20, 0x1F600, 0x20, 0x20, 0x61, 0x75, 0x09,
      0x6C, 0x61, 0x69, 0x74, 0x20] =
     [0x43, 0x61, 0x66, 0x65, 0x20, 0x61, 0x75, 0x20, 0x6C, 0x61, 0x69, 0x74] \<and>
   eliminate_unicode stdlib_only_env True True
     (eliminate_unicode stdlib_only_env True True
        [0x20, 0x20, 0x43, 0x61, 0x66, 0xE9, 0x20, 0x1F600, 0x20, 0x20, 0x61, 0x75, 0x09,
         0x6C, 0x61, 0x69, 0x74, 0x20]) =
     [0x43, 0x61, 0x66, 0x65, 0x20, 0x61, 0x75, 0x20, 0x6C, 0x61, 0x69, 0x74]"
proof -
  have once: "eliminate_unicode stdlib_only_env True True
     [0x20, 0x20, 0x43, 0x61, 0x66, 0xE9, 0x20, 0x1F600, 0x20, 0x20, 0x61, 0x75, 0x09,
      0x6C, 0x61, 0x69, 0x74, 0x20] =
     [0x43, 0x61, 0x66, 0x65, 0x20, 0x61, 0x75, 0x20, 0x6C, 0x61, 0x69, 0x74]"
    by (simp add: eliminate_unicode_def stdlib_only_env_def emoji_pattern_sub_def
          emoji_char_def encode_ascii_ignore_def clean_whitespace_def strip_ws_def
          unicode_space_def)
  from eliminate_unicode_idempotent [OF stdlib_only_env_keeps_ascii, of True True]
  have "eliminate_unicode stdlib_only_env True True
          (eliminate_unicode stdlib_only_env True True
             [0x20, 0x20, 0x43, 0x61, 0x66, 0xE9, 0x20, 0x1F600, 0x20, 0x20, 0x61, 0x75, 0x09,
              0x6C, 0x61, 0x69, 0x74, 0x20]) =
        eliminate_unicode stdlib_only_env True True
          [0x20, 0x20, 0x43, 0x61, 0x66, 0xE9, 0x20, 0x1F600, 0x20, 0x20, 0x61, 0x75, 0x09,
           0x6C, 0x61, 0x69, 0x74, 0x20]"
    by simp
  with once show ?thesis by simp
qed


section \<open>Python values and types\<close>

text \<open>
  The classes an argument can be declared with, and the values an argument can hold.
  Dictionaries as argument values and callables other than the built-in classes as
  \<^verbatim>\<open>type=\<close> are left out. Floating-point numbers are a type parameter \<open>'f\<close>: what
  Python does with them comes in through the record \<open>runtime\<close> below.
\<close>

datatype pytype = TInt | TFloat | TBool | TStr | TList

datatype 'f pyval =
    VNone
  | VBool bool
  | VInt int
  | VFloat 'f
  | VStr string
  | VList "'f pyval list"

datatype pyexn = ValueError | TypeError | OverflowError | ArgumentError

text \<open>\<^verbatim>\<open>type(v)\<close>, for a value that is not \<^verbatim>\<open>None\<close>.\<close>

fun py_type :: "'f pyval \<Rightarrow> pytype option" where
  "py_type VNone = None"
| "py_type (VBool b) = Some TBool"
| "py_type (VInt i) = Some TInt"
| "py_type (VFloat x) = Some TFloat"
| "py_type (VStr s) = Some TStr"
| "py_type (VList vs) = Some TList"

text \<open>\<^verbatim>\<open>cls.__name__\<close> and \<^verbatim>\<open>type(v).__name__\<close>.\<close>

fun type_name :: "pytype \<Rightarrow> string" where
  "type_name TInt = ''int''"
| "type_name TFloat = ''float''"
| "type_name TBool = ''bool''"
| "type_name TStr = ''str''"
| "type_name TList = ''list''"

definition value_type_name :: "'f pyval \<Rightarrow> string" where
  "value_type_name v = (case py_type v of None \<Rightarrow> ''NoneType'' | Some t \<Rightarrow> type_name t)"

text \<open>
  What the model takes from the Python runtime and from the module's environment:
  the floating-point operations, \<^verbatim>\<open>str()\<close> of a value, and the text normaliser
  \<^verbatim>\<open>eliminate_unicode_maximum\<close> on the parser's strings (its own model, over code
  points, is the section on Unicode elimination).
\<close>

record 'f runtime =
  float_zero :: 'f
  float_of_str :: "string \<Rightarrow> 'f option"
  float_of_int :: "int \<Rightarrow> 'f option"
  int_of_float :: "'f \<Rightarrow> pyexn + int"
  float_truthy :: "'f \<Rightarrow> bool"
  str_of :: "'f pyval \<Rightarrow> string"
  text_norm :: "string \<Rightarrow> string"

text \<open>\<^verbatim>\<open>isinstance(v, cls)\<close>: \<^verbatim>\<open>bool\<close> is a subclass of \<^verbatim>\<open>int\<close>.\<close>

fun isinstance :: "'f pyval \<Rightarrow> pytype \<Rightarrow> bool" where
  "isinstance VNone t = False"
| "isinstance (VBool b) t = (t = TBool \<or> t = TInt)"
| "isinstance (VInt i) t = (t = TInt)"
| "isinstance (VFloat x) t = (t = TFloat)"
| "isinstance (VStr s) t = (t = TStr)"
| "isinstance (VList vs) t = (t = TList)"

text \<open>The truth value of a value, which is what \<^verbatim>\<open>bool(v)\<close> returns.\<close>

fun truthy :: "'f runtime \<Rightarrow> 'f pyval \<Rightarrow> bool" where
  "truthy R VNone = False"
| "truthy R (VBool b) = b"
| "truthy R (VInt i) = (i \<noteq> 0)"
| "truthy R (VFloat x) = float_truthy R x"
| "truthy R (VStr s) = (s \<noteq> [])"
| "truthy R (VList vs) = (vs \<noteq> [])"

text \<open>
  \<^verbatim>\<open>int(s)\<close> for a string: the whitespace around it is dropped (for an ASCII string
  that is the six characters of C's \<^verbatim>\<open>isspace\<close>, fewer than \<^verbatim>\<open>str.isspace\<close>
  knows), then an optional sign and decimal digits, which single underscores may separate.
  \<open>None\<close> is \<^verbatim>\<open>ValueError\<close>. (The limit that recent Python versions put on the
  number of digits is not modelled.)
\<close>

definition ascii_space :: "char \<Rightarrow> bool" where
  "ascii_space c \<longleftrightarrow>
     c \<in> set [CHR 0x09, CHR 0x0A, CHR 0x0B, CHR 0x0C, CHR 0x0D,
              CHR 0x1C, CHR 0x1D, CHR 0x1E, CHR 0x1F, CHR 0x20]"

definition int_space :: "char \<Rightarrow> bool" where
  "int_space c \<longleftrightarrow> c \<in> set [CHR 0x09, CHR 0x0A, CHR 0x0B, CHR 0x0C, CHR 0x0D, CHR 0x20]"

definition digit_val :: "char \<Rightarrow> nat option" where
  "digit_val c = map_of (zip ''0123456789'' [0, 1, 2, 3, 4, 5, 6, 7, 8, 9]) c"

fun int_digits :: "nat \<Rightarrow> string \<Rightarrow> nat option" where
  "int_digits acc [] = Some acc"
| "int_digits acc [c] = map_option (\<lambda>d. 10 * acc + d) (digit_val c)"
| "int_digits acc (c # c' # cs) =
     (case digit_val c of
        Some d \<Rightarrow> int_digits (10 * acc + d) (c' # cs)
      | None \<Rightarrow>
          if c = CHR ''_'' then
            (case digit_val c' of Some d \<Rightarrow> int_digits (10 * acc + d) cs | None \<Rightarrow> None)
          else None)"

definition int_of_str :: "string \<Rightarrow> int option" where
  "int_of_str s =
     (let t = strip_ws int_space s;
          negative = (case t of c # cs \<Rightarrow> c = CHR ''-'' | [] \<Rightarrow> False);
          body = (case t of c # cs \<Rightarrow> if c = CHR ''-'' \<or> c = CHR ''+'' then cs else t
                  | [] \<Rightarrow> t)
      in case body of
           [] \<Rightarrow> None
         | c # cs \<Rightarrow>
             (case digit_val c of
                None \<Rightarrow> None
              | Some d \<Rightarrow>
                  map_option (\<lambda>n. if negative then - int n else int n) (int_digits d cs)))"

text \<open>
  Calling a class on a value, \<^verbatim>\<open>cls(v)\<close>: the converted value, or the exception
  that the call raises.
\<close>

fun construct :: "'f runtime \<Rightarrow> pytype \<Rightarrow> 'f pyval \<Rightarrow> pyexn + 'f pyval" where
  "construct R TInt VNone = Inl TypeError"
| "construct R TInt (VBool b) = Inr (VInt (if b then 1 else 0))"
| "construct R TInt (VInt i) = Inr (VInt i)"
| "construct R TInt (VFloat x) =
     (case int_of_float R x of Inl e \<Rightarrow> Inl e | Inr i \<Rightarrow> Inr (VInt i))"
| "construct R TInt (VStr s) =
     (case int_of_str s of None \<Rightarrow> Inl ValueError | Some i \<Rightarrow> Inr (VInt i))"
| "construct R TInt (VList vs) = Inl TypeError"
| "construct R TFloat VNone = Inl TypeError"
| "construct R TFloat (VBool b) =
     (case float_of_int R (if b then 1 else 0) of
        None \<Rightarrow> Inl OverflowError | Some x \<Rightarrow> Inr (VFloat x))"
| "construct R TFloat (VInt i) =
     (case float_of_int R i of None \<Rightarrow> Inl OverflowError | Some x \<Rightarrow> Inr (VFloat x))"
| "construct R TFloat (VFloat x) = Inr (VFloat x)"
| "construct R TFloat (VStr s) =
     (case float_of_str R s of None \<Rightarrow> Inl ValueError | Some x \<Rightarrow> Inr (VFloat x))"
| "construct R TFloat (VList vs) = Inl TypeError"
| "construct R TBool v = Inr (VBool (truthy R v))"
| "construct R TStr (VStr s) = Inr (VStr s)"
| "construct R TStr v = Inr (VStr (str_of R v))"
| "construct R TList (VStr s) = Inr (VList (map (\<lambda>c. VStr [c]) s))"
| "construct R TList (VList vs) = Inr (VList vs)"
| "construct R TList v = Inl TypeError"

text \<open>
  A runtime to evaluate the model with, on inputs that have no floating-point number
  other than \<^verbatim>\<open>0.0\<close> and whole numbers in them: a float is a rational number,
  \<^verbatim>\<open>float(s)\<close> of a string and \<^verbatim>\<open>str(v)\<close> are not provided. On ASCII text and
  without the optional libraries the normaliser does nothing but clean up the whitespace.
\<close>

definition plain_runtime :: "rat runtime" where
  "plain_runtime =
     \<lparr>float_zero = 0,
      float_of_str = (\<lambda>s. None),
      float_of_int = (\<lambda>i. Some (of_int i)),
      int_of_float = (\<lambda>x. Inr (if 0 \<le> x then \<lfloor>x\<rfloor> else \<lceil>x\<rceil>)),
      float_truthy = (\<lambda>x. x \<noteq> 0),
      str_of = (\<lambda>v. []),
      text_norm = clean_whitespace ascii_space CHR 0x20\<rparr>"


section \<open>The registry: \<^verbatim>\<open>ArgumentParser.add_argument\<close>\<close>

text \<open>
  \<^verbatim>\<open>_infer_type(name, default_value)\<close>: the class of the default when there is one,
  otherwise the first keyword table that has a word occurring in the lowercased name.
\<close>

definition infer_type :: "string \<Rightarrow> 'f pyval \<Rightarrow> pytype" where
  "infer_type name default_value =
     (case py_type default_value of
        Some t \<Rightarrow> t
      | None \<Rightarrow>
          (let name_lower = lower name in
           if any_word_in [''count'', ''number'', ''size'', ''port'', ''timeout''] name_lower
             then TInt
           else if any_word_in [''rate'', ''factor'', ''ratio''] name_lower
             then TFloat
           else if any_word_in [''enable'', ''disable'', ''verbose'', ''quiet'', ''debug'']
                     name_lower
             then TBool
           else if any_word_in [''file'', ''path'', ''dir'', ''output'', ''input''] name_lower
             then TStr
           else TStr))"

text \<open>\<^verbatim>\<open>_get_smart_default(arg_type)\<close>.\<close>

fun get_smart_default :: "'f runtime \<Rightarrow> pytype \<Rightarrow> 'f pyval" where
  "get_smart_default R TInt = VInt 0"
| "get_smart_default R TFloat = VFloat (float_zero R)"
| "get_smart_default R TBool = VBool False"
| "get_smart_default R TStr = VStr []"
| "get_smart_default R TList = VList []"

text \<open>\<^verbatim>\<open>_is_required_arg(name)\<close>.\<close>

definition required_patterns :: "string list" where
  "required_patterns =
     [''input'', ''file'', ''source'', ''target'', ''destination'',
      ''host'', ''server'', ''database'', ''username'', ''password'']"

definition is_required_arg :: "string \<Rightarrow> bool" where
  "is_required_arg name = any_word_in required_patterns (lower name)"

text \<open>
  The keyword arguments of \<^verbatim>\<open>add_argument\<close>: \<open>None\<close> is a key that the caller
  did not pass. The help text and \<^verbatim>\<open>config_key\<close> are not modelled: the parser
  never reads them back.
\<close>

record 'f kwargs =
  kw_type :: "pytype option"
  kw_default :: "'f pyval option"
  kw_required :: "bool option"
  kw_env_var :: "string option"
  kw_validator :: "('f pyval \<Rightarrow> string option) option"

text \<open>
  A stored definition, as the later code reads it: \<open>arg_default\<close> is
  \<^verbatim>\<open>arg_config.get("default")\<close>, so \<open>VNone\<close> when the key is missing. A validator
  returns \<open>Some msg\<close> when it raises an exception whose text is \<open>msg\<close>.
\<close>

record 'f argdef =
  arg_type :: pytype
  arg_default :: "'f pyval"
  arg_required :: bool
  arg_env_var :: string
  arg_validator :: "('f pyval \<Rightarrow> string option) option"

record 'f parser =
  args_definitions :: "(string \<times> 'f argdef) list"
  env_prefix :: string
  unicode_safe :: bool

text \<open>
  \<^verbatim>\<open>ArgumentParser(program_name, unicode_safe=...)\<close>, for a program name that is
  given. Subcommands are not modelled.
\<close>

definition new_parser :: "string \<Rightarrow> bool \<Rightarrow> 'f parser" where
  "new_parser program_name safe =
     \<lparr>args_definitions = [], env_prefix = dash_to_underscore (upper program_name),
      unicode_safe = safe\<rparr>"

text \<open>A call with the name alone.\<close>

definition no_kwargs :: "'f kwargs" where
  "no_kwargs =
     \<lparr>kw_type = None, kw_default = None, kw_required = None, kw_env_var = None,
      kw_validator = None\<rparr>"

definition flag_name :: "string \<Rightarrow> string" where
  "flag_name name = (if startswith name ''--'' then name else ''--'' @ name)"

definition default_env_var :: "string \<Rightarrow> string \<Rightarrow> string" where
  "default_env_var prefix name = prefix @ ''_'' @ dash_to_underscore (upper (drop 2 name))"

text \<open>
  \<^verbatim>\<open>add_argument(name, **kwargs)\<close>. The dictionary \<^verbatim>\<open>args_definitions\<close> is an
  association list in insertion order; \<open>AList.update\<close> replaces the value of a key
  that is there and appends a new key, as the assignment to a Python dictionary does.
\<close>

definition add_argument :: "'f runtime \<Rightarrow> 'f parser \<Rightarrow> string \<Rightarrow> 'f kwargs \<Rightarrow> 'f parser" where
  "add_argument R P name0 kw =
     (let name = flag_name name0;
          given_default = (case kw_default kw of None \<Rightarrow> VNone | Some v \<Rightarrow> v);
          t = (case kw_type kw of None \<Rightarrow> infer_type name given_default | Some t \<Rightarrow> t);
          dflt = (if kw_default kw = None \<and> t \<noteq> TBool then get_smart_default R t
                  else given_default);
          req = (case kw_required kw of None \<Rightarrow> is_required_arg name | Some r \<Rightarrow> r);
          ev = (case kw_env_var kw of None \<Rightarrow> default_env_var (env_prefix P) name
                | Some e \<Rightarrow> e)
      in P\<lparr>args_definitions :=
             AList.update name
               \<lparr>arg_type = t, arg_default = dflt, arg_required = req, arg_env_var = ev,
                arg_validator = kw_validator kw\<rparr>
               (args_definitions P)\<rparr>)"

text \<open>The definition stored under a name: \<^verbatim>\<open>args_definitions[name]\<close>.\<close>

definition stored :: "'f parser \<Rightarrow> string \<Rightarrow> 'f argdef option" where
  "stored P name = map_of (args_definitions P) name"

lemma stored_add_argument:
  "stored (add_argument R P name0 kw) (flag_name name0) =
     Some \<lparr>arg_type =
             (case kw_type kw of
                None \<Rightarrow> infer_type (flag_name name0)
                          (case kw_default kw of None \<Rightarrow> VNone | Some v \<Rightarrow> v)
              | Some t \<Rightarrow> t),
           arg_default =
             (if kw_default kw = None \<and>
                 (case kw_type kw of
                    None \<Rightarrow> infer_type (flag_name name0)
                              (case kw_default kw of None \<Rightarrow> VNone | Some v \<Rightarrow> v)
                  | Some t \<Rightarrow> t) \<noteq> TBool
              then get_smart_default R
                     (case kw_type kw of
                        None \<Rightarrow> infer_type (flag_name name0)
                                  (case kw_default kw of None \<Rightarrow> VNone | Some v \<Rightarrow> v)
                      | Some t \<Rightarrow> t)
              else (case kw_default kw of None \<Rightarrow> VNone | Some v \<Rightarrow> v)),
           arg_required =
             (case kw_required kw of None \<Rightarrow> is_required_arg (flag_name name0)
              | Some r \<Rightarrow> r),
           arg_env_var =
             (case kw_env_var kw of None \<Rightarrow> default_env_var (env_prefix P) (flag_name name0)
              | Some e \<Rightarrow> e),
           arg_validator = kw_validator kw\<rparr>"
  by (simp add: stored_def add_argument_def Let_def update_conv')

lemma startswith_append: "startswith (p @ s) p"
  by (induction p) simp_all

lemma lower_append: "lower (a @ b) = lower a @ lower b"
  by (simp add: lower_def)

lemma lower_dashes: "lower (CHR ''-'' # CHR ''-'' # s) = CHR ''-'' # CHR ''-'' # lower s"
  by (simp add: lower_def lower_char_def)

text \<open>
  None of the required patterns has a dash in it, so the \<^verbatim>\<open>--\<close> that
  \<^verbatim>\<open>add_argument\<close> puts in front of a bare name does not change the answer.
\<close>

lemma is_required_arg_flag_name: "is_required_arg (flag_name name) = is_required_arg name"
proof (cases "startswith name ''--''")
  case True
  then show ?thesis by (simp add: flag_name_def)
next
  case False
  have "any_word_in required_patterns (CHR ''-'' # CHR ''-'' # s) =
        any_word_in required_patterns s" for s
    by (simp add: any_word_in_def required_patterns_def)
  with False show ?thesis
    by (simp add: flag_name_def is_required_arg_def lower_dashes)
qed

text \<open>
  C10. When \<^verbatim>\<open>add_argument\<close> is called without \<^verbatim>\<open>required\<close>, the stored
  definition is required exactly when the lowercased flag name contains one of
  \<^verbatim>\<open>input, file, source, target, destination, host, server, database, username,
  password\<close>, and is not required otherwise. It holds for the name as the caller wrote it
  and for the name with \<^verbatim>\<open>--\<close> in front, under which the definition is stored.
\<close>

theorem auto_required_detection:
  assumes "kw_required kw = None"
  shows "\<exists>d. stored (add_argument R P name kw) (flag_name name) = Some d \<and>
           arg_required d =
             list_ex (\<lambda>pattern. str_contains (lower name) pattern)
               [''input'', ''file'', ''source'', ''target'', ''destination'',
                ''host'', ''server'', ''database'', ''username'', ''password''] \<and>
           arg_required d =
             list_ex (\<lambda>pattern. str_contains (lower (flag_name name)) pattern)
               [''input'', ''file'', ''source'', ''target'', ''destination'',
                ''host'', ''server'', ''database'', ''username'', ''password'']"
proof -
  have eq: "is_required_arg n =
          list_ex (\<lambda>pattern. str_contains (lower n) pattern)
            [''input'', ''file'', ''source'', ''target'', ''destination'',
             ''host'', ''server'', ''database'', ''username'', ''password'']" for n
    unfolding is_required_arg_def any_word_in_def required_patterns_def ..
  show ?thesis
    unfolding eq [symmetric]
    using assms by (simp add: stored_add_argument is_required_arg_flag_name)
qed

theorem auto_required_detection_witness:
  "\<exists>d. stored (add_argument plain_runtime (new_parser ''my-tool'' True) ''Input-Dir'' no_kwargs)
          ''--Input-Dir'' = Some d \<and>
       arg_required d \<and>
       (\<exists>d'. stored (add_argument plain_runtime (new_parser ''my-tool'' True) ''output''
                    no_kwargs) ''--output'' = Some d' \<and> \<not> arg_required d')"
proof -
  have none: "kw_required (no_kwargs :: rat kwargs) = None"
    by (simp add: no_kwargs_def)
  from auto_required_detection [OF none, of plain_runtime "new_parser ''my-tool'' True" "''Input-Dir''"]
    auto_required_detection [OF none, of plain_runtime "new_parser ''my-tool'' True" "''output''"]
  show ?thesis
    by (simp add: flag_name_def lower_def lower_char_def)
qed

subsection \<open>Type inference\<close>

lemma infer_type_no_default:
  "infer_type name VNone =
     (if any_word_in [''count'', ''number'', ''size'', ''port'', ''timeout''] (lower name)
        then TInt
      else if any_word_in [''rate'', ''factor'', ''ratio''] (lower name) then TFloat
      else if any_word_in [''enable'', ''disable'', ''verbose'', ''quiet'', ''debug''] (lower name)
        then TBool
      else TStr)"
  by (simp add: infer_type_def Let_def)

lemma infer_type_default: "py_type v = Some t \<Longrightarrow> infer_type name v = t"
  by (simp add: infer_type_def)

text \<open>
  C3, as the code has it. When \<^verbatim>\<open>add_argument\<close> is called without \<^verbatim>\<open>type\<close>:
  if no default is passed (or the default is \<^verbatim>\<open>None\<close>), the stored type is a function
  of the lowercased flag name alone, by the keyword tables in their order, the first match
  winning: \<^verbatim>\<open>count, number, size, port, timeout\<close> give Integer, else
  \<^verbatim>\<open>rate, factor, ratio\<close> give Float, else \<^verbatim>\<open>enable, disable, verbose, quiet,
  debug\<close> give Boolean, else String; so \<^verbatim>\<open>max-count\<close> is Integer, \<^verbatim>\<open>enable-cache\<close>
  Boolean, \<^verbatim>\<open>output-path\<close> String and \<^verbatim>\<open>growth-rate\<close> Float. If a default other
  than \<^verbatim>\<open>None\<close> is passed, the stored type is the class of that default, whatever
  the name.
\<close>

theorem type_inference_from_name:
  assumes "kw_type kw = None"
  shows "\<exists>d. stored (add_argument R P name kw) (flag_name name) = Some d \<and>
           (kw_default kw = None \<or> kw_default kw = Some VNone \<longrightarrow>
              arg_type d =
                (if any_word_in [''count'', ''number'', ''size'', ''port'', ''timeout'']
                      (lower (flag_name name)) then TInt
                 else if any_word_in [''rate'', ''factor'', ''ratio''] (lower (flag_name name))
                   then TFloat
                 else if any_word_in [''enable'', ''disable'', ''verbose'', ''quiet'', ''debug'']
                           (lower (flag_name name)) then TBool
                 else TStr)) \<and>
           (\<forall>v t. kw_default kw = Some v \<and> py_type v = Some t \<longrightarrow> arg_type d = t) \<and>
           infer_type ''--max-count'' (VNone :: 'f pyval) = TInt \<and>
           infer_type ''--enable-cache'' (VNone :: 'f pyval) = TBool \<and>
           infer_type ''--output-path'' (VNone :: 'f pyval) = TStr \<and>
           infer_type ''--growth-rate'' (VNone :: 'f pyval) = TFloat"
proof -
  have examples:
    "infer_type ''--max-count'' (VNone :: 'f pyval) = TInt"
    "infer_type ''--enable-cache'' (VNone :: 'f pyval) = TBool"
    "infer_type ''--output-path'' (VNone :: 'f pyval) = TStr"
    "infer_type ''--growth-rate'' (VNone :: 'f pyval) = TFloat"
    by (simp_all add: infer_type_def any_word_in_def lower_def lower_char_def)
  from assms have "\<exists>d. stored (add_argument R P name kw) (flag_name name) = Some d \<and>
           (kw_default kw = None \<or> kw_default kw = Some VNone \<longrightarrow>
              arg_type d =
                (if any_word_in [''count'', ''number'', ''size'', ''port'', ''timeout'']
                      (lower (flag_name name)) then TInt
                 else if any_word_in [''rate'', ''factor'', ''ratio''] (lower (flag_name name))
                   then TFloat
                 else if any_word_in [''enable'', ''disable'', ''verbose'', ''quiet'', ''debug'']
                           (lower (flag_name name)) then TBool
                 else TStr)) \<and>
           (\<forall>v t. kw_default kw = Some v \<and> py_type v = Some t \<longrightarrow> arg_type d = t)"
    by (auto simp: stored_add_argument infer_type_no_default infer_type_default)
  with examples show ?thesis by blast
qed

theorem type_inference_from_name_witness:
  "(\<exists>d. stored (add_argument plain_runtime (new_parser ''my-tool'' True) ''max-count'' no_kwargs)
          ''--max-count'' = Some d \<and> arg_type d = TInt) \<and>
   (\<exists>d. stored (add_argument plain_runtime (new_parser ''my-tool'' True) ''growth-rate''
               (no_kwargs\<lparr>kw_default := Some (VInt 2)\<rparr>))
          ''--growth-rate'' = Some d \<and> arg_type d = TInt)"
proof -
  have none: "kw_type (no_kwargs :: rat kwargs) = None"
    "kw_type ((no_kwargs :: rat kwargs)\<lparr>kw_default := Some (VInt 2)\<rparr>) = None"
    by (simp_all add: no_kwargs_def)
  from type_inference_from_name [OF none(1), of plain_runtime "new_parser ''my-tool'' True"
      "''max-count''"]
    type_inference_from_name [OF none(2), of plain_runtime "new_parser ''my-tool'' True"
      "''growth-rate''"]
  show ?thesis
    by (auto simp: flag_name_def no_kwargs_def any_word_in_def lower_def lower_char_def)
qed

text \<open>
  The claim as written fails: with a default, the type is not a function of the name.
  \<^verbatim>\<open>add_argument("max-count", default="ten")\<close> stores a String argument.
\<close>

theorem type_inference_counterexample:
  "map_option arg_type
     (stored (add_argument plain_runtime (new_parser ''my-tool'' True) ''max-count''
                (no_kwargs\<lparr>kw_default := Some (VStr ''ten'')\<rparr>)) ''--max-count'') = Some TStr \<and>
   infer_type ''--max-count'' (VStr ''ten'' :: rat pyval) \<noteq> TInt"
  by (simp add: stored_def add_argument_def Let_def flag_name_def new_parser_def no_kwargs_def
        infer_type_def)


section \<open>Suggestions: \<^verbatim>\<open>difflib.get_close_matches\<close> and \<^verbatim>\<open>_find_similar_args\<close>\<close>

text \<open>
  \<^verbatim>\<open>_find_similar_args\<close> calls \<^verbatim>\<open>difflib.get_close_matches\<close> of the standard
  library, which scores a candidate \<open>a\<close> against the word \<open>b\<close> with
  \<^verbatim>\<open>SequenceMatcher(None, a, b).ratio()\<close>: twice the number of matched characters
  over the sum of the lengths. The ratio is a float in Python and a rational number here;
  for strings of any length a command line can hold, two different ratios differ by far
  more than the rounding error, so the comparisons come out the same.

  An element of \<open>b\<close> is popular, and is left out of the index \<^verbatim>\<open>b2j\<close>, when \<open>b\<close>
  has 200 elements or more and the element makes up more than one percent of them.
\<close>

definition popular :: "'a list \<Rightarrow> 'a \<Rightarrow> bool" where
  "popular b c \<longleftrightarrow> 200 \<le> length b \<and> length b div 100 + 1 < count_list b c"

text \<open>
  \<^verbatim>\<open>find_longest_match(alo, ahi, blo, bhi)\<close>. In the source the dictionary
  \<^verbatim>\<open>j2len\<close> of row \<open>i\<close> holds, for every \<open>j\<close> with \<open>a[i] == b[j]\<close>, the length
  of the longest match that ends at \<open>a[i]\<close> and \<open>b[j]\<close>: one more than the entry of
  \<open>j - 1\<close> in the row before, or one when there is no such entry. \<open>run_len\<close> is that
  entry (0 for none). The scan goes through the rows and, in a row, through the \<open>j\<close> in
  increasing order, and keeps the first match that is longer than the best so far.
\<close>

fun run_len :: "'a list \<Rightarrow> 'a list \<Rightarrow> nat \<Rightarrow> nat \<Rightarrow> nat \<Rightarrow> nat \<Rightarrow> nat" where
  "run_len a b alo blo i j =
     (if a ! i = b ! j \<and> \<not> popular b (b ! j)
      then (if alo < i \<and> blo < j then run_len a b alo blo (i - 1) (j - 1) else 0) + 1
      else 0)"

declare run_len.simps [simp del]

definition scan_step ::
  "'a list \<Rightarrow> 'a list \<Rightarrow> nat \<Rightarrow> nat \<Rightarrow> nat \<times> nat \<Rightarrow> nat \<times> nat \<times> nat \<Rightarrow> nat \<times> nat \<times> nat" where
  "scan_step a b alo blo ij best =
     (case ij of (i, j) \<Rightarrow> case best of (besti, bestj, bestsize) \<Rightarrow>
        let k = run_len a b alo blo i j
        in if bestsize < k then (i + 1 - k, j + 1 - k, k) else (besti, bestj, bestsize))"

definition scan :: "'a list \<Rightarrow> 'a list \<Rightarrow> nat \<Rightarrow> nat \<Rightarrow> nat \<Rightarrow> nat \<Rightarrow> nat \<times> nat \<times> nat" where
  "scan a b alo ahi blo bhi =
     fold (scan_step a b alo blo) (List.product [alo..<ahi] [blo..<bhi]) (alo, blo, 0)"

text \<open>
  The two loops that extend the best match by elements equal on both sides (popular ones
  among them). No element is junk (\<^verbatim>\<open>isjunk\<close> is \<^verbatim>\<open>None\<close>), so the two loops
  over junk elements do nothing and are left out.
\<close>

function extend_left :: "'a list \<Rightarrow> 'a list \<Rightarrow> nat \<Rightarrow> nat \<Rightarrow> nat \<times> nat \<times> nat \<Rightarrow> nat \<times> nat \<times> nat" where
  "extend_left a b alo blo (besti, bestj, bestsize) =
     (if alo < besti \<and> blo < bestj \<and> a ! (besti - 1) = b ! (bestj - 1)
      then extend_left a b alo blo (besti - 1, bestj - 1, bestsize + 1)
      else (besti, bestj, bestsize))"
  by pat_completeness auto
termination
  by (relation "measure (\<lambda>(a, b, alo, blo, besti, bestj, bestsize). besti)") auto

function extend_right :: "'a list \<Rightarrow> 'a list \<Rightarrow> nat \<Rightarrow> nat \<Rightarrow> nat \<times> nat \<times> nat \<Rightarrow> nat \<times> nat \<times> nat" where
  "extend_right a b ahi bhi (besti, bestj, bestsize) =
     (if besti + bestsize < ahi \<and> bestj + bestsize < bhi \<and>
         a ! (besti + bestsize) = b ! (bestj + bestsize)
      then extend_right a b ahi bhi (besti, bestj, bestsize + 1)
      else (besti, bestj, bestsize))"
  by pat_completeness auto
termination
  by (relation "measure (\<lambda>(a, b, ahi, bhi, besti, bestj, bestsize). ahi - (besti + bestsize))") auto

declare extend_left.simps [simp del] extend_right.simps [simp del]

definition find_longest_match ::
  "'a list \<Rightarrow> 'a list \<Rightarrow> nat \<Rightarrow> nat \<Rightarrow> nat \<Rightarrow> nat \<Rightarrow> nat \<times> nat \<times> nat" where
  "find_longest_match a b alo ahi blo bhi =
     extend_right a b ahi bhi (extend_left a b alo blo (scan a b alo ahi blo bhi))"

text \<open>The best match lies inside the range of \<open>a\<close> that was asked for.\<close>

lemma run_len_le: "alo \<le> i \<Longrightarrow> run_len a b alo blo i j \<le> i + 1 - alo"
proof (induction a b alo blo i j rule: run_len.induct)
  case (1 a b alo blo i j)
  show ?case
  proof (cases "a ! i = b ! j \<and> \<not> popular b (b ! j)")
    case match: True
    show ?thesis
    proof (cases "alo < i \<and> blo < j")
      case True
      then have "alo \<le> i - 1" by arith
      with match True "1.IH" have "run_len a b alo blo (i - 1) (j - 1) \<le> i - 1 + 1 - alo"
        by blast
      with match True show ?thesis by (auto simp: run_len.simps [of a b alo blo i j])
    next
      case False
      with match have "run_len a b alo blo i j = 1"
        by (auto simp: run_len.simps [of a b alo blo i j])
      with "1.prems" show ?thesis by simp
    qed
  next
    case False
    then show ?thesis by (auto simp: run_len.simps [of a b alo blo i j])
  qed
qed

definition in_range :: "nat \<Rightarrow> nat \<Rightarrow> nat \<times> nat \<times> nat \<Rightarrow> bool" where
  "in_range alo ahi best =
     (case best of (besti, bestj, bestsize) \<Rightarrow>
        alo \<le> besti \<and> (besti + bestsize \<le> ahi \<or> (bestsize = 0 \<and> besti = alo)))"

lemma scan_step_in_range:
  assumes "in_range alo ahi best" and "alo \<le> i" and "i < ahi"
  shows "in_range alo ahi (scan_step a b alo blo (i, j) best)"
proof -
  obtain besti bestj bestsize where best: "best = (besti, bestj, bestsize)"
    by (cases best)
  from run_len_le [OF assms(2), of a b blo j] assms show ?thesis
    by (auto simp: in_range_def scan_step_def best Let_def)
qed

lemma fold_scan_step_in_range:
  assumes "\<forall>(i, j) \<in> set ps. alo \<le> i \<and> i < ahi" and "in_range alo ahi best"
  shows "in_range alo ahi (fold (scan_step a b alo blo) ps best)"
  using assms
proof (induction ps arbitrary: best)
  case Nil
  then show ?case by simp
next
  case (Cons p ps)
  obtain i j where p: "p = (i, j)" by (cases p)
  with Cons.prems have "in_range alo ahi (scan_step a b alo blo p best)"
    by (simp add: scan_step_in_range)
  with Cons show ?case by simp
qed

lemma scan_in_range: "in_range alo ahi (scan a b alo ahi blo bhi)"
  unfolding scan_def
  by (rule fold_scan_step_in_range) (auto simp: in_range_def)

lemma extend_left_in_range:
  "in_range alo ahi best \<Longrightarrow> in_range alo ahi (extend_left a b alo blo best)"
proof (induction a b alo blo best rule: extend_left.induct)
  case (1 a b alo blo besti bestj bestsize)
  show ?case
  proof (cases "alo < besti \<and> blo < bestj \<and> a ! (besti - 1) = b ! (bestj - 1)")
    case True
    with "1.prems" have "in_range alo ahi (besti - 1, bestj - 1, bestsize + 1)"
      by (auto simp: in_range_def)
    with True "1.IH" show ?thesis
      by (simp add: extend_left.simps [of a b alo blo besti bestj bestsize])
  next
    case False
    with "1.prems" show ?thesis
      by (auto simp: extend_left.simps [of a b alo blo besti bestj bestsize])
  qed
qed

lemma extend_right_in_range:
  "in_range alo ahi best \<Longrightarrow> in_range alo ahi (extend_right a b ahi bhi best)"
proof (induction a b ahi bhi best rule: extend_right.induct)
  case (1 a b ahi bhi besti bestj bestsize)
  show ?case
  proof (cases "besti + bestsize < ahi \<and> bestj + bestsize < bhi \<and>
                a ! (besti + bestsize) = b ! (bestj + bestsize)")
    case True
    with "1.prems" have "in_range alo ahi (besti, bestj, bestsize + 1)"
      by (auto simp: in_range_def)
    with True "1.IH" show ?thesis
      by (simp add: extend_right.simps [of a b ahi bhi besti bestj bestsize])
  next
    case False
    with "1.prems" show ?thesis
      by (auto simp: extend_right.simps [of a b ahi bhi besti bestj bestsize])
  qed
qed

lemma find_longest_match_in_range:
  "find_longest_match a b alo ahi blo bhi = (i, j, k) \<Longrightarrow>
     alo \<le> i \<and> (i + k \<le> ahi \<or> k = 0)"
proof -
  have "in_range alo ahi (find_longest_match a b alo ahi blo bhi)"
    unfolding find_longest_match_def
    by (intro extend_right_in_range extend_left_in_range scan_in_range)
  then show "find_longest_match a b alo ahi blo bhi = (i, j, k) \<Longrightarrow>
     alo \<le> i \<and> (i + k \<le> ahi \<or> k = 0)"
    by (auto simp: in_range_def)
qed

text \<open>
  The sum of the sizes of the blocks of \<^verbatim>\<open>get_matching_blocks()\<close>: the longest match,
  then the same to the left and to the right of it. It terminates because the best match
  lies inside the range and is not empty where the recursion goes on.
\<close>

function matching_size :: "'a list \<Rightarrow> 'a list \<Rightarrow> nat \<Rightarrow> nat \<Rightarrow> nat \<Rightarrow> nat \<Rightarrow> nat" where
  "matching_size a b alo ahi blo bhi =
     (case find_longest_match a b alo ahi blo bhi of (i, j, k) \<Rightarrow>
        if k = 0 then 0
        else k + (if alo < i \<and> blo < j then matching_size a b alo i blo j else 0)
               + (if i + k < ahi \<and> j + k < bhi then matching_size a b (i + k) ahi (j + k) bhi
                  else 0))"
  by pat_completeness auto
termination
  apply (relation "measure (\<lambda>(a, b, alo, ahi, blo, bhi). ahi - alo)")
  apply simp
  subgoal by (auto dest: find_longest_match_in_range [OF sym])
  subgoal by (auto dest: find_longest_match_in_range [OF sym])
  done

declare matching_size.simps [simp del]

text \<open>\<^verbatim>\<open>_calculate_ratio\<close>, \<^verbatim>\<open>ratio()\<close> and its two upper bounds.\<close>

definition calculate_ratio :: "nat \<Rightarrow> nat \<Rightarrow> rat" where
  "calculate_ratio matches len = (if len \<noteq> 0 then 2 * of_nat matches / of_nat len else 1)"

definition ratio :: "'a list \<Rightarrow> 'a list \<Rightarrow> rat" where
  "ratio a b = calculate_ratio (matching_size a b 0 (length a) 0 (length b)) (length a + length b)"

fun quick_matches :: "'a list \<Rightarrow> 'a list \<Rightarrow> nat" where
  "quick_matches [] b = 0"
| "quick_matches (elt # a) b =
     (if elt \<in> set b then 1 + quick_matches a (remove1 elt b) else quick_matches a b)"

definition quick_ratio :: "'a list \<Rightarrow> 'a list \<Rightarrow> rat" where
  "quick_ratio a b = calculate_ratio (quick_matches a b) (length a + length b)"

definition real_quick_ratio :: "'a list \<Rightarrow> 'a list \<Rightarrow> rat" where
  "real_quick_ratio a b = calculate_ratio (min (length a) (length b)) (length a + length b)"

text \<open>
  \<^verbatim>\<open>heapq.nlargest(n, result)\<close> on pairs of score and name: the \<open>n\<close> largest in
  descending order, which for equal scores is the descending order of the names.
\<close>

definition nlargest :: "nat \<Rightarrow> ('a::linorder) list \<Rightarrow> 'a list" where
  "nlargest n xs = take n (rev (sort xs))"

text \<open>\<^verbatim>\<open>get_close_matches(word, possibilities, n, cutoff)\<close>.\<close>

definition get_close_matches :: "string \<Rightarrow> string list \<Rightarrow> nat \<Rightarrow> rat \<Rightarrow> string list" where
  "get_close_matches word possibilities n cutoff =
     map snd (nlargest n
       (map (\<lambda>x. (ratio x word, x))
          (filter (\<lambda>x. cutoff \<le> real_quick_ratio x word \<and> cutoff \<le> quick_ratio x word \<and>
                       cutoff \<le> ratio x word)
             possibilities)))"

text \<open>\<^verbatim>\<open>_find_similar_args(arg, candidates)\<close>.\<close>

definition strip_marker :: "string \<Rightarrow> string" where
  "strip_marker arg = (if startswith arg ''--'' then drop 2 arg else arg)"

definition find_similar_args :: "string \<Rightarrow> string list \<Rightarrow> string list" where
  "find_similar_args arg candidates =
     map (\<lambda>m. ''--'' @ m)
       (get_close_matches (strip_marker arg) (map strip_marker candidates) 3 (6 / 10))"

subsection \<open>The quick ratios are upper bounds\<close>

text \<open>
  \<^verbatim>\<open>get_close_matches\<close> asks \<^verbatim>\<open>real_quick_ratio()\<close> and \<^verbatim>\<open>quick_ratio()\<close> before
  \<^verbatim>\<open>ratio()\<close>. The blocks that \<^verbatim>\<open>ratio()\<close> counts lie side by side in both
  sequences, so there are no more matched elements than the two sequences have in common
  as multisets, which is what \<^verbatim>\<open>quick_ratio()\<close> counts.
\<close>

lemma run_len_match:
  "t < run_len a b alo blo i j \<Longrightarrow> a ! (i - t) = b ! (j - t)"
proof (induction a b alo blo i j arbitrary: t rule: run_len.induct)
  case (1 a b alo blo i j)
  show ?case
  proof (cases "a ! i = b ! j \<and> \<not> popular b (b ! j)")
    case match: True
    show ?thesis
    proof (cases t)
      case 0
      with match show ?thesis by simp
    next
      case (Suc t')
      with "1.prems" match have deeper: "alo < i \<and> blo < j"
        and t': "t' < run_len a b alo blo (i - 1) (j - 1)"
        by (auto simp: run_len.simps [of a b alo blo i j] split: if_splits)
      from "1.IH" [OF match deeper t'] have "a ! (i - 1 - t') = b ! (j - 1 - t')" .
      with Suc show ?thesis by simp
    qed
  next
    case False
    with "1.prems" show ?thesis by (simp add: run_len.simps [of a b alo blo i j])
  qed
qed

lemma run_len_le_b: "blo \<le> j \<Longrightarrow> run_len a b alo blo i j \<le> j + 1 - blo"
proof (induction a b alo blo i j rule: run_len.induct)
  case (1 a b alo blo i j)
  show ?case
  proof (cases "a ! i = b ! j \<and> \<not> popular b (b ! j)")
    case match: True
    show ?thesis
    proof (cases "alo < i \<and> blo < j")
      case True
      then have "blo \<le> j - 1" by arith
      with match True "1.IH" have "run_len a b alo blo (i - 1) (j - 1) \<le> j - 1 + 1 - blo"
        by blast
      with match True show ?thesis by (auto simp: run_len.simps [of a b alo blo i j])
    next
      case False
      with match have "run_len a b alo blo i j = 1"
        by (auto simp: run_len.simps [of a b alo blo i j])
      with "1.prems" show ?thesis by simp
    qed
  next
    case False
    then show ?thesis by (auto simp: run_len.simps [of a b alo blo i j])
  qed
qed

text \<open>A block that lies in both ranges and on which the two sequences agree.\<close>

definition common_block ::
  "'a list \<Rightarrow> 'a list \<Rightarrow> nat \<Rightarrow> nat \<Rightarrow> nat \<Rightarrow> nat \<Rightarrow> nat \<times> nat \<times> nat \<Rightarrow> bool" where
  "common_block a b alo ahi blo bhi best =
     (case best of (besti, bestj, bestsize) \<Rightarrow>
        alo \<le> besti \<and> besti + bestsize \<le> ahi \<and> blo \<le> bestj \<and> bestj + bestsize \<le> bhi \<and>
        (\<forall>t < bestsize. a ! (besti + t) = b ! (bestj + t)))"

lemma scan_step_common_block:
  assumes "common_block a b alo ahi blo bhi best"
    and "alo \<le> i" "i < ahi" "blo \<le> j" "j < bhi"
  shows "common_block a b alo ahi blo bhi (scan_step a b alo blo (i, j) best)"
proof -
  obtain besti bestj bestsize where best: "best = (besti, bestj, bestsize)"
    by (cases best)
  let ?k = "run_len a b alo blo i j"
  show ?thesis
  proof (cases "bestsize < ?k")
    case True
    have ka: "?k \<le> i + 1 - alo" using assms(2) by (rule run_len_le)
    have kb: "?k \<le> j + 1 - blo" using assms(4) by (rule run_len_le_b)
    have "a ! (i + 1 - ?k + t) = b ! (j + 1 - ?k + t)" if "t < ?k" for t
    proof -
      from that ka have e1: "i - (?k - 1 - t) = i + 1 - ?k + t" by arith
      from that kb have e2: "j - (?k - 1 - t) = j + 1 - ?k + t" by arith
      from that have "?k - 1 - t < ?k" by arith
      from run_len_match [OF this] show ?thesis unfolding e1 e2 .
    qed
    moreover from ka assms(2,3) have "alo \<le> i + 1 - ?k" "i + 1 - ?k + ?k \<le> ahi" by arith+
    moreover from kb assms(4,5) have "blo \<le> j + 1 - ?k" "j + 1 - ?k + ?k \<le> bhi" by arith+
    ultimately show ?thesis
      using True by (simp add: common_block_def scan_step_def best Let_def)
  next
    case False
    with assms(1) show ?thesis by (simp add: scan_step_def best Let_def)
  qed
qed

lemma fold_scan_step_common_block:
  assumes "\<forall>(i, j) \<in> set ps. alo \<le> i \<and> i < ahi \<and> blo \<le> j \<and> j < bhi"
    and "common_block a b alo ahi blo bhi best"
  shows "common_block a b alo ahi blo bhi (fold (scan_step a b alo blo) ps best)"
  using assms
proof (induction ps arbitrary: best)
  case Nil
  then show ?case by simp
next
  case (Cons p ps)
  obtain i j where p: "p = (i, j)" by (cases p)
  with Cons.prems have "common_block a b alo ahi blo bhi (scan_step a b alo blo p best)"
    by (simp add: scan_step_common_block)
  with Cons show ?case by simp
qed

lemma scan_common_block:
  "alo \<le> ahi \<Longrightarrow> blo \<le> bhi \<Longrightarrow> common_block a b alo ahi blo bhi (scan a b alo ahi blo bhi)"
  unfolding scan_def
  by (rule fold_scan_step_common_block) (auto simp: common_block_def)

lemma extend_left_common_block:
  "common_block a b alo ahi blo bhi best \<Longrightarrow>
     common_block a b alo ahi blo bhi (extend_left a b alo blo best)"
proof (induction a b alo blo best rule: extend_left.induct)
  case (1 a b alo blo besti bestj bestsize)
  show ?case
  proof (cases "alo < besti \<and> blo < bestj \<and> a ! (besti - 1) = b ! (bestj - 1)")
    case True
    have "a ! (besti - 1 + t) = b ! (bestj - 1 + t)" if "t < bestsize + 1" for t
    proof (cases t)
      case 0
      with True show ?thesis by simp
    next
      case (Suc t')
      with that "1.prems" have "a ! (besti + t') = b ! (bestj + t')"
        by (simp add: common_block_def)
      with Suc True show ?thesis by simp
    qed
    with True "1.prems" have "common_block a b alo ahi blo bhi (besti - 1, bestj - 1, bestsize + 1)"
      by (auto simp: common_block_def)
    with True "1.IH" show ?thesis
      by (simp add: extend_left.simps [of a b alo blo besti bestj bestsize])
  next
    case False
    with "1.prems" show ?thesis
      by (auto simp: extend_left.simps [of a b alo blo besti bestj bestsize])
  qed
qed

lemma extend_right_common_block:
  "common_block a b alo ahi blo bhi best \<Longrightarrow>
     common_block a b alo ahi blo bhi (extend_right a b ahi bhi best)"
proof (induction a b ahi bhi best rule: extend_right.induct)
  case (1 a b ahi bhi besti bestj bestsize)
  show ?case
  proof (cases "besti + bestsize < ahi \<and> bestj + bestsize < bhi \<and>
                a ! (besti + bestsize) = b ! (bestj + bestsize)")
    case True
    have "a ! (besti + t) = b ! (bestj + t)" if "t < bestsize + 1" for t
    proof (cases "t = bestsize")
      case True
      with \<open>besti + bestsize < ahi \<and> bestj + bestsize < bhi \<and>
                a ! (besti + bestsize) = b ! (bestj + bestsize)\<close> show ?thesis by simp
    next
      case False
      with that "1.prems" show ?thesis by (simp add: common_block_def)
    qed
    with True "1.prems" have "common_block a b alo ahi blo bhi (besti, bestj, bestsize + 1)"
      by (simp add: common_block_def)
    with True "1.IH" show ?thesis
      by (simp add: extend_right.simps [of a b ahi bhi besti bestj bestsize])
  next
    case False
    with "1.prems" show ?thesis
      by (auto simp: extend_right.simps [of a b ahi bhi besti bestj bestsize])
  qed
qed

lemma find_longest_match_common_block:
  "alo \<le> ahi \<Longrightarrow> blo \<le> bhi \<Longrightarrow>
     common_block a b alo ahi blo bhi (find_longest_match a b alo ahi blo bhi)"
  unfolding find_longest_match_def
  by (intro extend_right_common_block extend_left_common_block scan_common_block)

text \<open>\<^verbatim>\<open>xs[lo:hi]\<close>.\<close>

definition slice :: "'a list \<Rightarrow> nat \<Rightarrow> nat \<Rightarrow> 'a list" where
  "slice xs lo hi = take (hi - lo) (drop lo xs)"

lemma slice_split:
  assumes "lo \<le> i" and "i + k \<le> hi"
  shows "slice xs lo hi = slice xs lo i @ slice xs i (i + k) @ slice xs (i + k) hi"
proof -
  from assms have "hi - lo = (i - lo) + (k + (hi - (i + k)))" by arith
  then have "take (hi - lo) (drop lo xs) =
             take (i - lo) (drop lo xs) @ take k (drop (i - lo) (drop lo xs)) @
             take (hi - (i + k)) (drop k (drop (i - lo) (drop lo xs)))"
    by (simp only: take_add)
  moreover from assms have "i - lo + lo = i" "k + i = i + k" by arith+
  ultimately show ?thesis
    by (simp add: slice_def)
qed

lemma slice_eq:
  assumes "i + k \<le> length a" and "j + k \<le> length b"
    and "\<forall>t < k. a ! (i + t) = b ! (j + t)"
  shows "slice a i (i + k) = slice b j (j + k)"
  using assms by (intro nth_equalityI) (auto simp: slice_def)

lemma slice_all: "slice xs 0 (length xs) = xs"
  by (simp add: slice_def)

lemma inter_blocks:
  "size (A1 \<inter># B1) + size M + size (A2 \<inter># B2) \<le>
     size ((A1 + M + A2) \<inter># (B1 + M + B2))"
proof -
  have "(A1 \<inter># B1) + M + (A2 \<inter># B2) \<subseteq># (A1 + M + A2) \<inter># (B1 + M + B2)"
    by (simp add: subseteq_mset_def min_def)
  from size_mset_mono [OF this] show ?thesis by simp
qed

lemma matching_size_le:
  "alo \<le> ahi \<Longrightarrow> ahi \<le> length a \<Longrightarrow> blo \<le> bhi \<Longrightarrow> bhi \<le> length b \<Longrightarrow>
     matching_size a b alo ahi blo bhi \<le>
       size (mset (slice a alo ahi) \<inter># mset (slice b blo bhi))"
proof (induction a b alo ahi blo bhi rule: matching_size.induct)
  case (1 a b alo ahi blo bhi)
  obtain i j k where flm: "find_longest_match a b alo ahi blo bhi = (i, j, k)"
    by (cases "find_longest_match a b alo ahi blo bhi")
  from find_longest_match_common_block [OF "1.prems"(1,3), of a b] flm
  have cb: "alo \<le> i" "i + k \<le> ahi" "blo \<le> j" "j + k \<le> bhi"
    "\<forall>t < k. a ! (i + t) = b ! (j + t)"
    by (simp_all add: common_block_def)
  show ?case
  proof (cases "k = 0")
    case True
    with flm show ?thesis by (simp add: matching_size.simps [of a b alo ahi blo bhi])
  next
    case False
    let ?left = "if alo < i \<and> blo < j then matching_size a b alo i blo j else 0"
    let ?right = "if i + k < ahi \<and> j + k < bhi
                  then matching_size a b (i + k) ahi (j + k) bhi else 0"
    have left: "?left \<le> size (mset (slice a alo i) \<inter># mset (slice b blo j))"
    proof (cases "alo < i \<and> blo < j")
      case True
      from cb "1.prems" have "alo \<le> i" "i \<le> length a" "blo \<le> j" "j \<le> length b" by arith+
      from "1.IH"(1) [OF flm [symmetric] refl False True this] True show ?thesis by simp
    next
      case False
      then show ?thesis by (simp only: if_False)
    qed
    have right: "?right \<le> size (mset (slice a (i + k) ahi) \<inter># mset (slice b (j + k) bhi))"
    proof (cases "i + k < ahi \<and> j + k < bhi")
      case True
      from cb "1.prems" have "i + k \<le> ahi" "ahi \<le> length a" "j + k \<le> bhi" "bhi \<le> length b"
        by arith+
      from "1.IH"(2) [OF flm [symmetric] refl False True this] True show ?thesis by simp
    next
      case False
      then show ?thesis by (simp only: if_False)
    qed
    from cb "1.prems" have "i + k \<le> length a" "j + k \<le> length b" by arith+
    then have mid: "slice a i (i + k) = slice b j (j + k)"
      using cb(5) by (rule slice_eq)
    from cb "1.prems" have "length (slice b j (j + k)) = k" by (simp add: slice_def)
    then have k: "size (mset (slice b j (j + k))) = k" by simp
    have "matching_size a b alo ahi blo bhi = k + ?left + ?right"
      using flm False by (simp add: matching_size.simps [of a b alo ahi blo bhi])
    also have "\<dots> \<le> size (mset (slice a alo i) \<inter># mset (slice b blo j)) +
                     size (mset (slice b j (j + k))) +
                     size (mset (slice a (i + k) ahi) \<inter># mset (slice b (j + k) bhi))"
      using left right k by arith
    also have "\<dots> \<le> size ((mset (slice a alo i) + mset (slice b j (j + k)) +
                           mset (slice a (i + k) ahi)) \<inter>#
                          (mset (slice b blo j) + mset (slice b j (j + k)) +
                           mset (slice b (j + k) bhi)))"
      by (rule inter_blocks)
    also have "\<dots> = size (mset (slice a alo ahi) \<inter># mset (slice b blo bhi))"
      by (simp add: slice_split [OF cb(1,2), of a] slice_split [OF cb(3,4), of b] mid add.assoc)
    finally show ?thesis .
  qed
qed

lemma quick_matches_inter: "quick_matches a b = size (mset a \<inter># mset b)"
proof (induction a arbitrary: b)
  case Nil
  then show ?case by simp
next
  case (Cons elt a)
  show ?case
  proof (cases "elt \<in> set b")
    case True
    then have "elt \<in># mset b" by simp
    from inter_add_left2 [OF this, of "mset a"] True Cons.IH [of "remove1 elt b"]
    show ?thesis by simp
  next
    case False
    then have "elt \<notin># mset b" by simp
    from inter_add_left1 [OF this, of "mset a"] False Cons.IH [of b]
    show ?thesis by simp
  qed
qed

lemma matching_size_quick: "matching_size a b 0 (length a) 0 (length b) \<le> quick_matches a b"
  using matching_size_le [of 0 "length a" a 0 "length b" b]
  by (simp add: quick_matches_inter slice_all)

lemma quick_matches_min: "quick_matches a b \<le> min (length a) (length b)"
proof -
  have "size (mset a \<inter># mset b) \<le> size (mset a)"
    by (rule size_mset_mono) simp
  moreover have "size (mset a \<inter># mset b) \<le> size (mset b)"
    by (rule size_mset_mono) simp
  ultimately show ?thesis by (simp add: quick_matches_inter)
qed

lemma calculate_ratio_mono: "m \<le> m' \<Longrightarrow> calculate_ratio m len \<le> calculate_ratio m' len"
  by (simp add: calculate_ratio_def divide_right_mono)

lemma ratio_quick_ratio: "ratio a b \<le> quick_ratio a b"
  unfolding ratio_def quick_ratio_def by (rule calculate_ratio_mono) (rule matching_size_quick)

lemma quick_ratio_real_quick_ratio: "quick_ratio a b \<le> real_quick_ratio a b"
  unfolding quick_ratio_def real_quick_ratio_def
  by (rule calculate_ratio_mono) (rule quick_matches_min)

text \<open>The two quick tests of \<^verbatim>\<open>get_close_matches\<close> turn no candidate away that the ratio keeps.\<close>

lemma get_close_matches_filter:
  "get_close_matches word possibilities n cutoff =
     map snd (nlargest n
       (map (\<lambda>x. (ratio x word, x)) (filter (\<lambda>x. cutoff \<le> ratio x word) possibilities)))"
proof -
  have "(cutoff \<le> real_quick_ratio x word \<and> cutoff \<le> quick_ratio x word \<and>
         cutoff \<le> ratio x word) = (cutoff \<le> ratio x word)" for x
    using ratio_quick_ratio [of x word] quick_ratio_real_quick_ratio [of x word] by auto
  then show ?thesis by (simp add: get_close_matches_def)
qed


subsection \<open>What the suggestions are\<close>

lemma length_nlargest: "length (nlargest n xs) \<le> n"
  by (simp add: nlargest_def)

lemma set_nlargest: "set (nlargest n xs) \<subseteq> set xs"
  unfolding nlargest_def using set_take_subset [of n "rev (sort xs)"] by simp

lemma nlargest_descending: "sorted_wrt (\<lambda>x y. y \<le> x) (nlargest n xs)"
  unfolding nlargest_def
  by (rule sorted_wrt_take) (simp add: sorted_wrt_rev)

lemma get_close_matches_length: "length (get_close_matches word possibilities n cutoff) \<le> n"
  by (simp add: get_close_matches_def length_nlargest)

lemma get_close_matches_kept:
  assumes "m \<in> set (get_close_matches word possibilities n cutoff)"
  shows "m \<in> set possibilities \<and> cutoff \<le> ratio m word"
proof -
  from assms obtain p where "p \<in> set (nlargest n
       (map (\<lambda>x. (ratio x word, x))
          (filter (\<lambda>x. cutoff \<le> real_quick_ratio x word \<and> cutoff \<le> quick_ratio x word \<and>
                       cutoff \<le> ratio x word)
             possibilities)))" and "m = snd p"
    by (auto simp: get_close_matches_def)
  with set_nlargest show ?thesis by fastforce
qed

lemma get_close_matches_descending:
  "sorted_wrt (\<lambda>m m'. ratio m' word \<le> ratio m word)
     (get_close_matches word possibilities n cutoff)"
proof -
  let ?scored = "map (\<lambda>x. (ratio x word, x))
          (filter (\<lambda>x. cutoff \<le> real_quick_ratio x word \<and> cutoff \<le> quick_ratio x word \<and>
                       cutoff \<le> ratio x word)
             possibilities)"
  have scored: "fst p = ratio (snd p) word" if "p \<in> set (nlargest n ?scored)" for p
    using that set_nlargest [of n ?scored] by auto
  have "sorted_wrt (\<lambda>p q. q \<le> p) (nlargest n ?scored)"
    by (rule nlargest_descending)
  then have "sorted_wrt (\<lambda>p q. ratio (snd q) word \<le> ratio (snd p) word) (nlargest n ?scored)"
  proof (rule sorted_wrt_mono_rel [rotated])
    fix p q assume "p \<in> set (nlargest n ?scored)" "q \<in> set (nlargest n ?scored)" "q \<le> p"
    then show "ratio (snd q) word \<le> ratio (snd p) word"
      using scored [of p] scored [of q] by (auto simp: less_eq_prod_def)
  qed
  then show ?thesis
    by (simp add: get_close_matches_def sorted_wrt_map)
qed

lemma nlargest_complete:
  assumes "x \<in> set xs" and "x \<notin> set (nlargest n xs)"
  shows "length (nlargest n xs) = n \<and> (\<forall>y \<in> set (nlargest n xs). x \<le> y)"
proof -
  let ?ys = "rev (sort xs)"
  have split: "?ys = take n ?ys @ drop n ?ys" by simp
  from assms have "x \<in> set ?ys" "x \<notin> set (take n ?ys)"
    by (simp_all add: nlargest_def)
  with split have x: "x \<in> set (drop n ?ys)"
    by (metis Un_iff set_append)
  then have "n < length ?ys" by (cases "n < length ?ys") simp_all
  then have len: "length (take n ?ys) = n" by simp
  have "sorted_wrt (\<lambda>x y. y \<le> x) (take n ?ys @ drop n ?ys)"
    by (simp add: sorted_wrt_rev)
  then have "\<forall>y \<in> set (take n ?ys). \<forall>z \<in> set (drop n ?ys). z \<le> y"
    unfolding sorted_wrt_append by blast
  with x len show ?thesis by (simp add: nlargest_def)
qed

lemma get_close_matches_complete:
  assumes "c \<in> set possibilities" and "cutoff \<le> ratio c word"
    and "c \<notin> set (get_close_matches word possibilities n cutoff)"
  shows "length (get_close_matches word possibilities n cutoff) = n \<and>
         (\<forall>m \<in> set (get_close_matches word possibilities n cutoff).
            ratio c word \<le> ratio m word)"
proof -
  let ?scored = "map (\<lambda>x. (ratio x word, x)) (filter (\<lambda>x. cutoff \<le> ratio x word) possibilities)"
  have res: "get_close_matches word possibilities n cutoff = map snd (nlargest n ?scored)"
    by (rule get_close_matches_filter)
  from assms(1,2) have in_scored: "(ratio c word, c) \<in> set ?scored" by auto
  have out: "(ratio c word, c) \<notin> set (nlargest n ?scored)"
  proof
    assume "(ratio c word, c) \<in> set (nlargest n ?scored)"
    then have "snd (ratio c word, c) \<in> set (map snd (nlargest n ?scored))"
      unfolding set_map by (rule imageI)
    with assms(3) res show False by simp
  qed
  from nlargest_complete [OF in_scored out]
  have len: "length (nlargest n ?scored) = n"
    and le: "\<forall>q \<in> set (nlargest n ?scored). (ratio c word, c) \<le> q"
    by simp_all
  have "ratio c word \<le> ratio m word"
    if "m \<in> set (get_close_matches word possibilities n cutoff)" for m
  proof -
    from that res obtain q where q: "q \<in> set (nlargest n ?scored)" "m = snd q" by auto
    with set_nlargest [of n ?scored] have "fst q = ratio (snd q) word" by auto
    moreover from le q(1) have "ratio c word \<le> fst q"
      by (auto simp: less_eq_prod_def)
    ultimately show ?thesis using q(2) by simp
  qed
  with len res show ?thesis by simp
qed

text \<open>
  C8. For every unknown flag and every list of known names, \<^verbatim>\<open>_find_similar_args\<close>
  strips a leading \<^verbatim>\<open>--\<close> from the unknown name and from the candidates, returns at
  most three names, each a candidate whose similarity ratio to the unknown name is at least
  0.6, in the order of descending similarity, with \<^verbatim>\<open>--\<close> put back in front. They are
  the best ones: a candidate with a ratio of at least 0.6 is left out only when three
  names are returned, none of them less similar than it. For the known names
  \<^verbatim>\<open>input, output, verbose\<close> and the unknown flag \<^verbatim>\<open>--inut\<close> the result is
  \<^verbatim>\<open>["--input"]\<close>.
\<close>

theorem find_similar_args_spec:
  "length (find_similar_args arg candidates) \<le> 3 \<and>
   (\<forall>m \<in> set (find_similar_args arg candidates).
      \<exists>c \<in> set candidates. m = ''--'' @ strip_marker c \<and>
         6 / 10 \<le> ratio (strip_marker c) (strip_marker arg)) \<and>
   sorted_wrt (\<lambda>m m'. ratio (drop 2 m') (strip_marker arg) \<le> ratio (drop 2 m) (strip_marker arg))
     (find_similar_args arg candidates) \<and>
   (\<forall>c \<in> set candidates.
      6 / 10 \<le> ratio (strip_marker c) (strip_marker arg) \<and>
      ''--'' @ strip_marker c \<notin> set (find_similar_args arg candidates) \<longrightarrow>
      length (find_similar_args arg candidates) = 3 \<and>
      (\<forall>m \<in> set (find_similar_args arg candidates).
         ratio (strip_marker c) (strip_marker arg) \<le> ratio (drop 2 m) (strip_marker arg))) \<and>
   find_similar_args ''--inut'' [''--input'', ''--output'', ''--verbose''] = [''--input'']"
proof (intro conjI ballI impI)
  show "length (find_similar_args arg candidates) \<le> 3"
    by (simp add: find_similar_args_def get_close_matches_length)
next
  fix m assume "m \<in> set (find_similar_args arg candidates)"
  then obtain m' where m': "m = ''--'' @ m'"
    "m' \<in> set (get_close_matches (strip_marker arg) (map strip_marker candidates) 3 (6 / 10))"
    by (auto simp: find_similar_args_def)
  from get_close_matches_kept [OF m'(2)] m'(1)
  show "\<exists>c \<in> set candidates. m = ''--'' @ strip_marker c \<and>
         6 / 10 \<le> ratio (strip_marker c) (strip_marker arg)"
    by auto
next
  show "sorted_wrt (\<lambda>m m'. ratio (drop 2 m') (strip_marker arg) \<le> ratio (drop 2 m) (strip_marker arg))
     (find_similar_args arg candidates)"
    using get_close_matches_descending [of "strip_marker arg" "map strip_marker candidates" 3 "6 / 10"]
    by (simp add: find_similar_args_def sorted_wrt_map)
next
  fix c
  assume c: "c \<in> set candidates"
    and "6 / 10 \<le> ratio (strip_marker c) (strip_marker arg) \<and>
         ''--'' @ strip_marker c \<notin> set (find_similar_args arg candidates)"
  then have close: "6 / 10 \<le> ratio (strip_marker c) (strip_marker arg)"
    and "strip_marker c \<notin>
           set (get_close_matches (strip_marker arg) (map strip_marker candidates) 3 (6 / 10))"
    by (auto simp: find_similar_args_def)
  with c get_close_matches_complete [of "strip_marker c" "map strip_marker candidates" "6 / 10"
      "strip_marker arg" 3]
  have "length (get_close_matches (strip_marker arg) (map strip_marker candidates) 3 (6 / 10)) = 3"
    and "\<forall>m \<in> set (get_close_matches (strip_marker arg) (map strip_marker candidates) 3 (6 / 10)).
           ratio (strip_marker c) (strip_marker arg) \<le> ratio m (strip_marker arg)"
    by auto
  then show "length (find_similar_args arg candidates) = 3"
    and "\<And>m. m \<in> set (find_similar_args arg candidates) \<Longrightarrow>
           ratio (strip_marker c) (strip_marker arg) \<le> ratio (drop 2 m) (strip_marker arg)"
    by (auto simp: find_similar_args_def)
next
  show "find_similar_args ''--inut'' [''--input'', ''--output'', ''--verbose''] = [''--input'']"
    by code_simp
qed

theorem find_similar_args_spec_witness:
  "find_similar_args ''--inut'' [''--input'', ''--output'', ''--verbose''] = [''--input''] \<and>
   ratio ''input'' ''inut'' = 8 / 9 \<and> ratio ''output'' ''inut'' = 2 / 5 \<and>
   ratio ''verbose'' ''inut'' = 0 \<and>
   find_similar_args ''--inut'' [''--nut'', ''--input'', ''--inu'', ''--output'', ''--inut''] =
     [''--inut'', ''--input'', ''--nut''] \<and>
   ratio ''inu'' ''inut'' = 6 / 7 \<and> ratio ''nut'' ''inut'' = 6 / 7"
proof -
  have r: "ratio ''input'' ''inut'' = 8 / 9" "ratio ''output'' ''inut'' = 2 / 5"
    "ratio ''verbose'' ''inut'' = 0" "ratio ''inu'' ''inut'' = 6 / 7"
    "ratio ''nut'' ''inut'' = 6 / 7"
    by code_simp+
  have five: "find_similar_args ''--inut''
                [''--nut'', ''--input'', ''--inu'', ''--output'', ''--inut''] =
              [''--inut'', ''--input'', ''--nut'']"
    by code_simp
  from find_similar_args_spec [of "''--inut''" "[''--input'', ''--output'', ''--verbose'']"]
  have "find_similar_args ''--inut'' [''--input'', ''--output'', ''--verbose''] = [''--input'']"
    by simp
  with r five show ?thesis by simp
qed


section \<open>Defaults from config files and from the environment\<close>

text \<open>
  \<^verbatim>\<open>_load_config_defaults\<close>. Reading and decoding a file is not modelled: a config
  file comes as the mapping decoded from it, or as \<open>None\<close> when it contributes nothing
  (the file is missing, its suffix is neither JSON nor YAML, or reading or decoding or
  \<^verbatim>\<open>defaults.update\<close> raised, which the code swallows). Later files win.
\<close>

definition load_config_defaults :: "(string \<rightharpoonup> 'f pyval) option list \<Rightarrow> (string \<rightharpoonup> 'f pyval)" where
  "load_config_defaults files =
     fold (\<lambda>file defaults. case file of None \<Rightarrow> defaults | Some config \<Rightarrow> defaults ++ config)
       files Map.empty"

text \<open>
  \<^verbatim>\<open>_load_env_defaults\<close>: the conversion of the value of an environment variable by
  the type of the argument; \<open>None\<close> is the \<^verbatim>\<open>ValueError\<close> that the code passes over.
\<close>

definition env_convert :: "'f runtime \<Rightarrow> pytype \<Rightarrow> string \<Rightarrow> 'f pyval option" where
  "env_convert R t val =
     (if t = TBool then Some (VBool (lower val \<in> set [''true'', ''1'', ''yes'', ''on'']))
      else if t = TInt then map_option VInt (int_of_str val)
      else if t = TFloat then map_option VFloat (float_of_str R val)
      else Some (VStr val))"

definition env_step ::
  "'f runtime \<Rightarrow> (string \<rightharpoonup> string) \<Rightarrow> string \<times> 'f argdef \<Rightarrow> (string \<rightharpoonup> 'f pyval) \<Rightarrow>
     (string \<rightharpoonup> 'f pyval)" where
  "env_step R environ entry defaults =
     (case entry of (arg_name, arg_config) \<Rightarrow>
        let env_var = arg_env_var arg_config in
        if env_var \<noteq> [] then
          (case environ env_var of
             None \<Rightarrow> defaults
           | Some val \<Rightarrow>
               (case env_convert R (arg_type arg_config) val of
                  None \<Rightarrow> defaults
                | Some v \<Rightarrow> defaults(arg_name \<mapsto> v)))
        else defaults)"

definition load_env_defaults ::
  "'f runtime \<Rightarrow> (string \<times> 'f argdef) list \<Rightarrow> (string \<rightharpoonup> string) \<Rightarrow> (string \<rightharpoonup> 'f pyval)" where
  "load_env_defaults R defs environ = fold (env_step R environ) defs Map.empty"

text \<open>
  The merge at the head of the loop of \<^verbatim>\<open>parse_args\<close>: the declared default, then
  the config value, then the environment value.
\<close>

definition merged_default ::
  "'f argdef \<Rightarrow> (string \<rightharpoonup> 'f pyval) \<Rightarrow> (string \<rightharpoonup> 'f pyval) \<Rightarrow> string \<Rightarrow> 'f pyval" where
  "merged_default arg_config config_defaults env_defaults arg_name =
     (let default_value = arg_default arg_config;
          default_value = (case config_defaults arg_name of
                             Some c \<Rightarrow> c | None \<Rightarrow> default_value);
          default_value = (case env_defaults arg_name of
                             Some e \<Rightarrow> e | None \<Rightarrow> default_value)
      in default_value)"


section \<open>The command line: \<^verbatim>\<open>argparse\<close>\<close>

text \<open>
  \<^verbatim>\<open>parse_args\<close> hands the definitions to an \<^verbatim>\<open>argparse.ArgumentParser\<close> of the
  standard library. Of \<^verbatim>\<open>argparse\<close> the model has what the parser uses: options with
  one value that a class converts, \<^verbatim>\<open>store_true\<close> flags, defaults, required options
  and the errors, each of which ends the process with status 2. The command line comes as
  the list of its options in order, each with the value that follows it, if one does;
  splitting \<^verbatim>\<open>argv\<close>, abbreviated options and \<^verbatim>\<open>--flag=value\<close> are not modelled.
\<close>

record 'f action =
  act_flag :: string
  act_dest :: string
  act_type :: "pytype option"
  act_default :: "'f pyval"
  act_required :: bool

type_synonym 'f namespace = "string \<rightharpoonup> 'f pyval"

type_synonym argv = "(string \<times> string option) list"

text \<open>
  What a run prints before the process ends: the error of \<^verbatim>\<open>argparse\<close>, or the
  lines of \<^verbatim>\<open>_validate_args\<close>.
\<close>

datatype report_entry =
    InvalidValue string string
  | ExpectedOneArgument string
  | MissingRequired "string list"
  | UnrecognizedArguments "string list"
  | ValidationError string

datatype 'f result =
    Returned "'f namespace"
  | Exited nat "report_entry list"
  | Raised pyexn

text \<open>
  The attribute under which \<^verbatim>\<open>argparse\<close> stores an option (all leading dashes
  dropped), and the attribute that \<^verbatim>\<open>_validate_args\<close> reads (\<^verbatim>\<open>arg_name[2:]\<close>).
\<close>

definition dest_of :: "string \<Rightarrow> string" where
  "dest_of name = dash_to_underscore (dropWhile (\<lambda>c. c = CHR ''-'') name)"

definition attr_name :: "string \<Rightarrow> string" where
  "attr_name arg_name = dash_to_underscore (drop 2 arg_name)"

text \<open>
  \<^verbatim>\<open>parser.add_argument(arg_name, **arg_kwargs)\<close>: a Boolean argument becomes a
  \<^verbatim>\<open>store_true\<close> flag without a type. \<^verbatim>\<open>argparse\<close> raises when the option is
  \<^verbatim>\<open>--help\<close>, which it has defined itself, and when nothing is left of the name
  after the dashes.
\<close>

definition make_action :: "string \<Rightarrow> 'f argdef \<Rightarrow> 'f pyval \<Rightarrow> 'f action" where
  "make_action arg_name arg_config default_value =
     \<lparr>act_flag = arg_name, act_dest = dest_of arg_name,
      act_type = (if arg_type arg_config = TBool then None else Some (arg_type arg_config)),
      act_default = default_value, act_required = arg_required arg_config\<rparr>"

fun build_actions ::
  "(string \<times> 'f argdef) list \<Rightarrow> (string \<rightharpoonup> 'f pyval) \<Rightarrow> (string \<rightharpoonup> 'f pyval) \<Rightarrow>
     pyexn + 'f action list" where
  "build_actions [] config_defaults env_defaults = Inr []"
| "build_actions ((arg_name, arg_config) # defs) config_defaults env_defaults =
     (if arg_name = ''--help'' then Inl ArgumentError
      else if dest_of arg_name = [] then Inl ValueError
      else
        (case build_actions defs config_defaults env_defaults of
           Inl e \<Rightarrow> Inl e
         | Inr acts \<Rightarrow>
             Inr (make_action arg_name arg_config
                    (merged_default arg_config config_defaults env_defaults arg_name) # acts)))"

text \<open>The namespace before the command line is read: the first default of every attribute.\<close>

definition initial_namespace :: "'f action list \<Rightarrow> 'f namespace" where
  "initial_namespace acts =
     fold (\<lambda>a ns. if ns (act_dest a) = None then ns(act_dest a \<mapsto> act_default a) else ns)
       acts Map.empty"

text \<open>
  Reading the options in order. The state is the namespace, the options seen, and the
  strings that belong to no option.
\<close>

definition token_list :: "string option \<Rightarrow> string list" where
  "token_list tok = (case tok of None \<Rightarrow> [] | Some t \<Rightarrow> [t])"

definition consume_one ::
  "'f runtime \<Rightarrow> 'f action list \<Rightarrow> string \<times> string option \<Rightarrow>
     'f namespace \<times> string list \<times> string list \<Rightarrow>
     'f result + ('f namespace \<times> string list \<times> string list)" where
  "consume_one R acts item st =
     (case item of (flag, tok) \<Rightarrow> case st of (ns, seen, extras) \<Rightarrow>
        if flag = ''--help'' \<or> flag = ''-h'' then Inl (Exited 0 [])
        else
          (case find (\<lambda>a. act_flag a = flag) acts of
             None \<Rightarrow> Inr (ns, seen, extras @ flag # token_list tok)
           | Some a \<Rightarrow>
               (case act_type a of
                  None \<Rightarrow>
                    Inr (ns(act_dest a \<mapsto> VBool True), flag # seen, extras @ token_list tok)
                | Some t \<Rightarrow>
                    (case tok of
                       None \<Rightarrow> Inl (Exited 2 [ExpectedOneArgument flag])
                     | Some s \<Rightarrow>
                         (case construct R t (VStr s) of
                            Inl e \<Rightarrow> Inl (Exited 2 [InvalidValue flag s])
                          | Inr v \<Rightarrow> Inr (ns(act_dest a \<mapsto> v), flag # seen, extras))))))"

fun consume ::
  "'f runtime \<Rightarrow> 'f action list \<Rightarrow> argv \<Rightarrow> 'f namespace \<times> string list \<times> string list \<Rightarrow>
     'f result + ('f namespace \<times> string list \<times> string list)" where
  "consume R acts [] st = Inr st"
| "consume R acts (item # rest) st =
     (case consume_one R acts item st of
        Inl r \<Rightarrow> Inl r
      | Inr st' \<Rightarrow> consume R acts rest st')"

text \<open>
  After the last option: an option that was not seen is noted when it is required;
  otherwise its default, when it is a string and still in the namespace, is converted by
  the type of the option. The state is the namespace and the required options noted.
\<close>

definition finalize_one ::
  "'f runtime \<Rightarrow> string list \<Rightarrow> 'f action \<Rightarrow> 'f namespace \<times> string list \<Rightarrow>
     'f result + ('f namespace \<times> string list)" where
  "finalize_one R seen a st =
     (case st of (ns, required_actions) \<Rightarrow>
        if act_flag a \<in> set seen then Inr (ns, required_actions)
        else if act_required a then Inr (ns, required_actions @ [act_flag a])
        else
          (case act_default a of
             VStr s \<Rightarrow>
               if ns (act_dest a) = Some (VStr s) then
                 (case act_type a of
                    None \<Rightarrow> Inr (ns, required_actions)
                  | Some t \<Rightarrow>
                      (case construct R t (VStr s) of
                         Inl e \<Rightarrow> Inl (Exited 2 [InvalidValue (act_flag a) s])
                       | Inr v \<Rightarrow> Inr (ns(act_dest a \<mapsto> v), required_actions)))
               else Inr (ns, required_actions)
           | _ \<Rightarrow> Inr (ns, required_actions)))"

fun finalize ::
  "'f runtime \<Rightarrow> string list \<Rightarrow> 'f action list \<Rightarrow> 'f namespace \<times> string list \<Rightarrow>
     'f result + ('f namespace \<times> string list)" where
  "finalize R seen [] st = Inr st"
| "finalize R seen (a # acts) st =
     (case finalize_one R seen a st of
        Inl r \<Rightarrow> Inl r
      | Inr st' \<Rightarrow> finalize R seen acts st')"

definition argparse_parse_args :: "'f runtime \<Rightarrow> 'f action list \<Rightarrow> argv \<Rightarrow> 'f result + 'f namespace" where
  "argparse_parse_args R acts args =
     (case consume R acts args (initial_namespace acts, [], []) of
        Inl r \<Rightarrow> Inl r
      | Inr (ns, seen, extras) \<Rightarrow>
          (case finalize R seen acts (ns, []) of
             Inl r \<Rightarrow> Inl r
           | Inr (ns', required_actions) \<Rightarrow>
               if required_actions \<noteq> [] then Inl (Exited 2 [MissingRequired required_actions])
               else if extras \<noteq> [] then Inl (Exited 2 [UnrecognizedArguments extras])
               else Inr ns'))"


section \<open>Validation: \<^verbatim>\<open>_validate_args\<close>\<close>

text \<open>
  The type validation of one argument: nothing, or a conversion to store, or a line for
  the error list; an exception other than \<^verbatim>\<open>ValueError\<close> and \<^verbatim>\<open>TypeError\<close> is
  not caught.
\<close>

definition type_validation ::
  "'f runtime \<Rightarrow> string \<Rightarrow> pytype \<Rightarrow> 'f pyval \<Rightarrow> pyexn + ('f pyval option \<times> string list)" where
  "type_validation R arg_name expected_type v =
     (if v \<noteq> VNone \<and> \<not> isinstance v expected_type then
        (case construct R expected_type v of
           Inr converted \<Rightarrow> Inr (Some converted, [])
         | Inl e \<Rightarrow>
             if e = ValueError \<or> e = TypeError then
               Inr (None, [arg_name @ '': Expected '' @ type_name expected_type @ '', got '' @
                            value_type_name v])
             else Inl e)
      else Inr (None, []))"

text \<open>
  \<^verbatim>\<open>getattr(args, attr_name, None)\<close>, and the value after Unicode elimination, which
  touches strings only.
\<close>

definition getattr_or_none :: "'f namespace \<Rightarrow> string \<Rightarrow> 'f pyval" where
  "getattr_or_none ns attr = (case ns attr of None \<Rightarrow> VNone | Some v \<Rightarrow> v)"

definition unicode_safe_value :: "'f runtime \<Rightarrow> bool \<Rightarrow> 'f pyval \<Rightarrow> 'f pyval" where
  "unicode_safe_value R safe v =
     (case v of VStr s \<Rightarrow> if safe then VStr (text_norm R s) else v | _ \<Rightarrow> v)"

text \<open>
  One round of the loop. The state is the namespace, the error list and the calls of
  validators so far, each with the argument it was for and the value it was given. The
  local variable \<^verbatim>\<open>value\<close> is \<open>val\<close>: the normalised string is assigned to it and
  stored; a converted value is stored only.
\<close>

type_synonym 'f vstate = "'f namespace \<times> string list \<times> (string \<times> 'f pyval) list"

definition validate_step ::
  "'f runtime \<Rightarrow> bool \<Rightarrow> string \<times> 'f argdef \<Rightarrow> 'f vstate \<Rightarrow>
     (pyexn \<times> (string \<times> 'f pyval) list) + 'f vstate" where
  "validate_step R safe entry st =
     (case entry of (arg_name, arg_config) \<Rightarrow> case st of (ns, errors, calls) \<Rightarrow>
        let attr = attr_name arg_name;
            fetched = getattr_or_none ns attr;
            val = unicode_safe_value R safe fetched;
            ns1 = (case fetched of VStr s \<Rightarrow> if safe then ns(attr \<mapsto> val) else ns | _ \<Rightarrow> ns)
        in case type_validation R arg_name (arg_type arg_config) val of
             Inl e \<Rightarrow> Inl (e, calls)
           | Inr (converted, type_errors) \<Rightarrow>
               let ns2 = (case converted of None \<Rightarrow> ns1 | Some c \<Rightarrow> ns1(attr \<mapsto> c));
                   errors1 = errors @ type_errors
               in (case arg_validator arg_config of
                     None \<Rightarrow> Inr (ns2, errors1, calls)
                   | Some validator \<Rightarrow>
                       Inr (ns2,
                            errors1 @ (case validator val of None \<Rightarrow> []
                                       | Some msg \<Rightarrow> [arg_name @ '': '' @ msg]),
                            calls @ [(arg_name, val)])))"

fun validate_loop ::
  "'f runtime \<Rightarrow> bool \<Rightarrow> (string \<times> 'f argdef) list \<Rightarrow> 'f vstate \<Rightarrow>
     (pyexn \<times> (string \<times> 'f pyval) list) + 'f vstate" where
  "validate_loop R safe [] st = Inr st"
| "validate_loop R safe (entry # defs) st =
     (case validate_step R safe entry st of
        Inl x \<Rightarrow> Inl x
      | Inr st' \<Rightarrow> validate_loop R safe defs st')"

text \<open>
  The outcome of a run: how it ended, and the calls of validators it made. When the error
  list is not empty, \<^verbatim>\<open>_validate_args\<close> prints it and calls \<^verbatim>\<open>sys.exit(1)\<close>.
\<close>

record 'f outcome =
  result :: "'f result"
  validator_calls :: "(string \<times> 'f pyval) list"
  suggestions :: "string list list"

definition validate_args :: "'f runtime \<Rightarrow> 'f parser \<Rightarrow> 'f namespace \<Rightarrow> 'f outcome" where
  "validate_args R P ns =
     (case validate_loop R (unicode_safe P) (args_definitions P) (ns, [], []) of
        Inl (e, calls) \<Rightarrow> \<lparr>result = Raised e, validator_calls = calls, suggestions = []\<rparr>
      | Inr (ns', errors, calls) \<Rightarrow>
          if errors \<noteq> [] then
            \<lparr>result = Exited 1 (map ValidationError errors), validator_calls = calls,
             suggestions = []\<rparr>
          else \<lparr>result = Returned ns', validator_calls = calls, suggestions = []\<rparr>)"


section \<open>\<^verbatim>\<open>parse_args\<close>\<close>

text \<open>
  \<^verbatim>\<open>_suggest_corrections(args)\<close>: for every string of the command line that starts
  with \<^verbatim>\<open>--\<close>, the similar names, when there are any.
\<close>

definition suggest_corrections :: "'f parser \<Rightarrow> argv \<Rightarrow> string list list" where
  "suggest_corrections P args =
     filter (\<lambda>found. found \<noteq> [])
       (map (\<lambda>arg. find_similar_args arg (map fst (args_definitions P)))
          (filter (\<lambda>arg. startswith arg ''--'')
             (concat (map (\<lambda>(flag, tok). flag # token_list tok) args))))"

text \<open>With \<^verbatim>\<open>unicode_safe\<close>, every string of the command line is normalised first.\<close>

definition normalize_argv :: "'f runtime \<Rightarrow> 'f parser \<Rightarrow> argv \<Rightarrow> argv" where
  "normalize_argv R P args =
     (if unicode_safe P
      then map (\<lambda>(flag, tok). (text_norm R flag, map_option (text_norm R) tok)) args
      else args)"

text \<open>
  The handler \<^verbatim>\<open>except SystemExit\<close> of \<^verbatim>\<open>parse_args\<close>: when the process is
  about to end and the command line is not empty, the suggestions are printed; the exit
  goes on, and any other outcome is left as it is.
\<close>

definition on_system_exit :: "'f parser \<Rightarrow> argv \<Rightarrow> 'f outcome \<Rightarrow> 'f outcome" where
  "on_system_exit P args out =
     (case result out of
        Exited code report \<Rightarrow>
          out\<lparr>suggestions := (if args \<noteq> [] then suggest_corrections P args else [])\<rparr>
      | _ \<Rightarrow> out)"

text \<open>
  \<^verbatim>\<open>parse_args(args)\<close> for a parser without subcommands, given the decoded config
  files and the environment. An exception while the options are set up is raised before
  the \<^verbatim>\<open>try\<close> block is entered.
\<close>

definition parse_args ::
  "'f runtime \<Rightarrow> 'f parser \<Rightarrow> (string \<rightharpoonup> 'f pyval) option list \<Rightarrow> (string \<rightharpoonup> string) \<Rightarrow>
     argv \<Rightarrow> 'f outcome" where
  "parse_args R P config_files environ argv0 =
     (let args = normalize_argv R P argv0;
          config_defaults = load_config_defaults config_files;
          env_defaults = load_env_defaults R (args_definitions P) environ
      in case build_actions (args_definitions P) config_defaults env_defaults of
           Inl e \<Rightarrow> \<lparr>result = Raised e, validator_calls = [], suggestions = []\<rparr>
         | Inr acts \<Rightarrow>
             on_system_exit P args
               (case argparse_parse_args R acts args of
                  Inl r \<Rightarrow> \<lparr>result = r, validator_calls = [], suggestions = []\<rparr>
                | Inr ns \<Rightarrow> validate_args R P ns))"


section \<open>The environment tier\<close>

text \<open>What the environment gives for one definition.\<close>

definition env_entry :: "'f runtime \<Rightarrow> (string \<rightharpoonup> string) \<Rightarrow> 'f argdef \<Rightarrow> 'f pyval option" where
  "env_entry R environ arg_config =
     (if arg_env_var arg_config \<noteq> [] then
        (case environ (arg_env_var arg_config) of
           None \<Rightarrow> None
         | Some val \<Rightarrow> env_convert R (arg_type arg_config) val)
      else None)"

lemma env_step_same:
  "env_step R environ (name, d) m name =
     (case env_entry R environ d of Some v \<Rightarrow> Some v | None \<Rightarrow> m name)"
  by (simp add: env_step_def env_entry_def Let_def split: option.splits)

lemma env_step_other: "n \<noteq> name \<Longrightarrow> env_step R environ (n, d) m name = m name"
  by (simp add: env_step_def Let_def split: option.splits)

lemma fold_env_step_other:
  "name \<notin> fst ` set defs \<Longrightarrow> fold (env_step R environ) defs m name = m name"
proof (induction defs arbitrary: m)
  case Nil
  then show ?case by simp
next
  case (Cons e defs)
  obtain n d where e: "e = (n, d)" by (cases e)
  with Cons.prems have "n \<noteq> name" "name \<notin> fst ` set defs" by auto
  with Cons.IH e show ?case by (simp add: env_step_other)
qed

lemma fold_env_step_lookup:
  assumes "distinct (map fst defs)" and "map_of defs name = Some d"
  shows "fold (env_step R environ) defs m name =
           (case env_entry R environ d of Some v \<Rightarrow> Some v | None \<Rightarrow> m name)"
  using assms
proof (induction defs arbitrary: m)
  case Nil
  then show ?case by simp
next
  case (Cons e defs)
  obtain n d' where e: "e = (n, d')" by (cases e)
  show ?case
  proof (cases "n = name")
    case True
    with Cons.prems e have d: "d' = d" and notin: "name \<notin> fst ` set defs" by auto
    from notin have "fold (env_step R environ) defs (env_step R environ (name, d) m) name =
                       env_step R environ (name, d) m name"
      by (rule fold_env_step_other)
    with True e d show ?thesis by (simp add: env_step_same)
  next
    case False
    with Cons.prems e have "distinct (map fst defs)" "map_of defs name = Some d" by auto
    from Cons.IH [OF this] e show ?thesis by (simp add: env_step_other [OF False] split: option.splits)
  qed
qed

lemma load_env_defaults_lookup:
  assumes "distinct (map fst defs)" and "map_of defs name = Some d"
  shows "load_env_defaults R defs environ name = env_entry R environ d"
  unfolding load_env_defaults_def
  by (simp add: fold_env_step_lookup [OF assms] split: option.splits)


section \<open>A run of \<^verbatim>\<open>parse_args\<close>, step by step\<close>

subsection \<open>The options that \<^verbatim>\<open>parse_args\<close> sets up\<close>

lemma build_actions_map:
  "build_actions defs cfg env = Inr acts \<Longrightarrow>
     acts = map (\<lambda>(n, d). make_action n d (merged_default d cfg env n)) defs"
proof (induction defs arbitrary: acts)
  case Nil
  then show ?case by simp
next
  case (Cons e defs)
  obtain n d where e: "e = (n, d)" by (cases e)
  from Cons.prems obtain acts' where
    tl: "build_actions defs cfg env = Inr acts'" and
    acts: "acts = make_action n d (merged_default d cfg env n) # acts'"
    unfolding e by (auto split: if_splits sum.splits)
  from Cons.IH [OF tl] acts e show ?case by simp
qed

lemma find_action:
  "find (\<lambda>a. act_flag a = name) (map (\<lambda>(n, d). make_action n d (f n d)) defs) =
     map_option (\<lambda>d. make_action name d (f name d)) (map_of defs name)"
proof (induction defs)
  case Nil
  then show ?case by simp
next
  case (Cons e defs)
  obtain n d where e: "e = (n, d)" by (cases e)
  have "act_flag (make_action n d (f n d)) = n" by (simp add: make_action_def)
  with Cons e show ?case by auto
qed

lemma find_action_flag: "find (\<lambda>a. act_flag a = flag) acts = Some a \<Longrightarrow> act_flag a = flag"
  by (auto simp: find_Some_iff)


subsection \<open>Reading the command line\<close>

lemma consume_append:
  "consume R acts (xs @ ys) st =
     (case consume R acts xs st of Inl r \<Rightarrow> Inl r | Inr st' \<Rightarrow> consume R acts ys st')"
  by (induction xs arbitrary: st) (simp_all split: sum.splits)

text \<open>An exit while the options are read leaves at most one line.\<close>

lemma consume_one_exit:
  "consume_one R acts item st = Inl r \<Longrightarrow>
     \<exists>code report. r = Exited code report \<and> length report \<le> 1"
  by (auto simp: consume_one_def split: prod.splits if_splits option.splits sum.splits)

lemma consume_exit:
  "consume R acts args st = Inl r \<Longrightarrow> \<exists>code report. r = Exited code report \<and> length report \<le> 1"
proof (induction args arbitrary: st)
  case Nil
  then show ?case by simp
next
  case (Cons item args)
  show ?case
  proof (cases "consume_one R acts item st")
    case (Inl r')
    with Cons.prems consume_one_exit [OF Inl] show ?thesis by simp
  next
    case (Inr st')
    with Cons show ?thesis by simp
  qed
qed

text \<open>Options that store under other attributes leave an attribute alone.\<close>

lemma consume_one_frame:
  assumes "consume_one R acts (flag, tok) (ns, seen, extras) = Inr (ns', seen', extras')"
    and "\<And>a. find (\<lambda>a. act_flag a = flag) acts = Some a \<Longrightarrow> act_dest a \<noteq> k"
  shows "ns' k = ns k"
  using assms
  by (auto simp: consume_one_def split: if_splits option.splits sum.splits)

lemma consume_frame:
  assumes "consume R acts args (ns, seen, extras) = Inr (ns', seen', extras')"
    and "\<And>flag tok a. (flag, tok) \<in> set args \<Longrightarrow> find (\<lambda>a. act_flag a = flag) acts = Some a \<Longrightarrow>
           act_dest a \<noteq> k"
  shows "ns' k = ns k"
  using assms
proof (induction args arbitrary: ns seen extras)
  case Nil
  then show ?case by simp
next
  case (Cons item args)
  obtain flag tok where item: "item = (flag, tok)" by (cases item)
  from Cons.prems(1) obtain ns1 seen1 extras1 where
    one: "consume_one R acts (flag, tok) (ns, seen, extras) = Inr (ns1, seen1, extras1)" and
    rest: "consume R acts args (ns1, seen1, extras1) = Inr (ns', seen', extras')"
    by (auto simp: item split: sum.splits)
  have "ns1 k = ns k"
    by (rule consume_one_frame [OF one]) (use Cons.prems(2) item in auto)
  moreover have "ns' k = ns1 k"
    by (rule Cons.IH [OF rest]) (use Cons.prems(2) in auto)
  ultimately show ?case by simp
qed

lemma consume_one_seen:
  assumes "consume_one R acts (flag, tok) (ns, seen, extras) = Inr (ns', seen', extras')"
  shows "set seen \<subseteq> set seen' \<and> set seen' \<subseteq> insert flag (set seen)"
  using assms
  by (auto simp: consume_one_def split: if_splits option.splits sum.splits)

lemma consume_seen:
  assumes "consume R acts args (ns, seen, extras) = Inr (ns', seen', extras')"
  shows "set seen \<subseteq> set seen' \<and> set seen' \<subseteq> set seen \<union> fst ` set args"
  using assms
proof (induction args arbitrary: ns seen extras)
  case Nil
  then show ?case by simp
next
  case (Cons item args)
  obtain flag tok where item: "item = (flag, tok)" by (cases item)
  from Cons.prems(1) obtain ns1 seen1 extras1 where
    one: "consume_one R acts (flag, tok) (ns, seen, extras) = Inr (ns1, seen1, extras1)" and
    rest: "consume R acts args (ns1, seen1, extras1) = Inr (ns', seen', extras')"
    by (auto simp: item split: sum.splits)
  from consume_one_seen [OF one] Cons.IH [OF rest] item show ?case by auto
qed

text \<open>The option itself: its value is stored and the option is seen.\<close>

lemma consume_one_own:
  assumes "consume_one R acts (flag, tok) (ns, seen, extras) = Inr (ns', seen', extras')"
    and "find (\<lambda>a. act_flag a = flag) acts = Some a"
  shows "flag \<in> set seen' \<and>
         (case act_type a of
            None \<Rightarrow> ns' (act_dest a) = Some (VBool True)
          | Some t \<Rightarrow> \<exists>s v. tok = Some s \<and> construct R t (VStr s) = Inr v \<and>
                        ns' (act_dest a) = Some v)"
  using assms
  by (auto simp: consume_one_def split: if_splits option.splits sum.splits)


subsection \<open>After the command line\<close>

lemma finalize_one_exit:
  "finalize_one R seen a st = Inl r \<Longrightarrow> \<exists>entry. r = Exited 2 [entry]"
  by (auto simp: finalize_one_def split: prod.splits if_splits option.splits sum.splits
        pyval.splits)

lemma finalize_exit:
  "finalize R seen acts st = Inl r \<Longrightarrow> \<exists>entry. r = Exited 2 [entry]"
proof (induction acts arbitrary: st)
  case Nil
  then show ?case by simp
next
  case (Cons a acts)
  show ?case
  proof (cases "finalize_one R seen a st")
    case (Inl r')
    with Cons.prems finalize_one_exit [OF Inl] show ?thesis by simp
  next
    case (Inr st')
    with Cons show ?thesis by simp
  qed
qed

lemma finalize_one_frame:
  assumes "finalize_one R seen a (ns, req) = Inr (ns', req')"
    and "act_dest a = k \<Longrightarrow> act_flag a \<in> set seen"
  shows "ns' k = ns k"
  using assms
  by (auto simp: finalize_one_def split: if_splits option.splits sum.splits pyval.splits)

lemma finalize_frame:
  assumes "finalize R seen acts (ns, req) = Inr (ns', req')"
    and "\<And>a. a \<in> set acts \<Longrightarrow> act_dest a = k \<Longrightarrow> act_flag a \<in> set seen"
  shows "ns' k = ns k"
  using assms
proof (induction acts arbitrary: ns req)
  case Nil
  then show ?case by simp
next
  case (Cons a acts)
  from Cons.prems(1) obtain ns1 req1 where
    one: "finalize_one R seen a (ns, req) = Inr (ns1, req1)" and
    rest: "finalize R seen acts (ns1, req1) = Inr (ns', req')"
    by (auto split: sum.splits)
  have "ns1 k = ns k"
    by (rule finalize_one_frame [OF one]) (use Cons.prems(2) in auto)
  moreover have "ns' k = ns1 k"
    by (rule Cons.IH [OF rest]) (use Cons.prems(2) in auto)
  ultimately show ?case by simp
qed

text \<open>A required option that was not seen is noted.\<close>

lemma finalize_one_required:
  assumes "finalize_one R seen a (ns, req) = Inr (ns', req')"
  shows "set req \<subseteq> set req' \<and> (act_required a \<and> act_flag a \<notin> set seen \<longrightarrow> act_flag a \<in> set req')"
  using assms
  by (auto simp: finalize_one_def split: if_splits option.splits sum.splits pyval.splits)

lemma finalize_required:
  assumes "finalize R seen acts (ns, req) = Inr (ns', req')"
  shows "set req \<subseteq> set req' \<and>
         (\<forall>a \<in> set acts. act_required a \<and> act_flag a \<notin> set seen \<longrightarrow> act_flag a \<in> set req')"
  using assms
proof (induction acts arbitrary: ns req)
  case Nil
  then show ?case by simp
next
  case (Cons a acts)
  from Cons.prems(1) obtain ns1 req1 where
    one: "finalize_one R seen a (ns, req) = Inr (ns1, req1)" and
    rest: "finalize R seen acts (ns1, req1) = Inr (ns', req')"
    by (auto split: sum.splits)
  from finalize_one_required [OF one] Cons.IH [OF rest] show ?case by auto
qed


subsection \<open>The validation loop\<close>

text \<open>What one definition adds to the error list and to the calls, from the value it finds.\<close>

definition def_errors :: "'f runtime \<Rightarrow> bool \<Rightarrow> string \<Rightarrow> 'f argdef \<Rightarrow> 'f pyval \<Rightarrow> string list" where
  "def_errors R safe arg_name arg_config fetched =
     (let val = unicode_safe_value R safe fetched in
      (case type_validation R arg_name (arg_type arg_config) val of
         Inl e \<Rightarrow> []
       | Inr (converted, type_errors) \<Rightarrow> type_errors) @
      (case arg_validator arg_config of
         None \<Rightarrow> []
       | Some validator \<Rightarrow>
           (case validator val of None \<Rightarrow> [] | Some msg \<Rightarrow> [arg_name @ '': '' @ msg])))"

definition def_calls ::
  "'f runtime \<Rightarrow> bool \<Rightarrow> string \<Rightarrow> 'f argdef \<Rightarrow> 'f pyval \<Rightarrow> (string \<times> 'f pyval) list" where
  "def_calls R safe arg_name arg_config fetched =
     (case arg_validator arg_config of
        None \<Rightarrow> []
      | Some validator \<Rightarrow> [(arg_name, unicode_safe_value R safe fetched)])"

lemma validate_step_frame:
  assumes "validate_step R safe (n, d) (ns, errors, calls) = Inr (ns', errors', calls')"
    and "attr_name n \<noteq> k"
  shows "ns' k = ns k"
  using assms
  by (auto simp: validate_step_def Let_def split: sum.splits option.splits pyval.splits
        if_splits)

lemma validate_step_adds:
  assumes "validate_step R safe (n, d) (ns, errors, calls) = Inr (ns', errors', calls')"
  shows "errors' = errors @ def_errors R safe n d (getattr_or_none ns (attr_name n)) \<and>
         calls' = calls @ def_calls R safe n d (getattr_or_none ns (attr_name n))"
  using assms
  by (auto simp: validate_step_def def_errors_def def_calls_def Let_def
        split: sum.splits option.splits)

lemma unicode_safe_value_isinstance:
  "isinstance (unicode_safe_value R safe v) t = isinstance v t"
  by (cases v) (simp_all add: unicode_safe_value_def)

text \<open>What \<^verbatim>\<open>_validate_args\<close> leaves in the namespace for a value that it finds there.\<close>

definition validated_value :: "'f runtime \<Rightarrow> bool \<Rightarrow> pytype \<Rightarrow> 'f pyval \<Rightarrow> 'f pyval" where
  "validated_value R safe t v =
     (let val = unicode_safe_value R safe v
      in if val \<noteq> VNone \<and> \<not> isinstance val t then
           (case construct R t val of Inl e \<Rightarrow> val | Inr converted \<Rightarrow> converted)
         else val)"

lemma validated_value_isinstance:
  "isinstance v t \<Longrightarrow> validated_value R safe t v = unicode_safe_value R safe v"
  by (simp add: validated_value_def unicode_safe_value_isinstance)

lemma validate_step_stores:
  assumes "validate_step R safe (n, d) (ns, errors, calls) = Inr (ns', errors', calls')"
    and "ns (attr_name n) = Some v"
  shows "ns' (attr_name n) = Some (validated_value R safe (arg_type d) v)"
proof -
  let ?val = "unicode_safe_value R safe v"
  have fetched: "getattr_or_none ns (attr_name n) = v"
    using assms(2) by (simp add: getattr_or_none_def)
  have ns1: "(case v of VStr s \<Rightarrow> if safe then ns(attr_name n \<mapsto> ?val) else ns | _ \<Rightarrow> ns)
               (attr_name n) = Some ?val"
    using assms(2) by (cases v) (simp_all add: unicode_safe_value_def)
  let ?ns1 = "case v of VStr s \<Rightarrow> if safe then ns(attr_name n \<mapsto> ?val) else ns | _ \<Rightarrow> ns"
  obtain converted type_errors where
    tv: "type_validation R n (arg_type d) ?val = Inr (converted, type_errors)"
    using assms(1) unfolding validate_step_def prod.case Let_def fetched
    by (cases "type_validation R n (arg_type d) ?val") auto
  have ns': "ns' = (case converted of None \<Rightarrow> ?ns1 | Some c \<Rightarrow> ?ns1(attr_name n \<mapsto> c))"
    using assms(1) unfolding validate_step_def prod.case Let_def fetched tv
    by (auto split: option.splits)
  show ?thesis
  proof (cases "?val \<noteq> VNone \<and> \<not> isinstance ?val (arg_type d)")
    case True
    show ?thesis
    proof (cases "construct R (arg_type d) ?val")
      case (Inl e)
      with True tv have "converted = None"
        by (auto simp: type_validation_def split: if_splits)
      with ns' ns1 True Inl show ?thesis by (simp add: validated_value_def)
    next
      case (Inr c)
      with True tv have "converted = Some c" by (simp add: type_validation_def)
      with ns' True Inr show ?thesis by (simp add: validated_value_def)
    qed
  next
    case False
    with tv have "converted = None" by (auto simp: type_validation_def)
    with ns' ns1 False show ?thesis by (auto simp: validated_value_def)
  qed
qed

lemma validate_loop_append:
  "validate_loop R safe (xs @ ys) st =
     (case validate_loop R safe xs st of Inl x \<Rightarrow> Inl x | Inr st' \<Rightarrow> validate_loop R safe ys st')"
  by (induction xs arbitrary: st) (simp_all split: sum.splits)

lemma validate_loop_frame:
  assumes "validate_loop R safe defs (ns, errors, calls) = Inr (ns', errors', calls')"
    and "\<And>n d. (n, d) \<in> set defs \<Longrightarrow> attr_name n \<noteq> k"
  shows "ns' k = ns k"
  using assms
proof (induction defs arbitrary: ns errors calls)
  case Nil
  then show ?case by simp
next
  case (Cons e defs)
  obtain n d where e: "e = (n, d)" by (cases e)
  from Cons.prems(1) obtain ns1 errors1 calls1 where
    one: "validate_step R safe (n, d) (ns, errors, calls) = Inr (ns1, errors1, calls1)" and
    rest: "validate_loop R safe defs (ns1, errors1, calls1) = Inr (ns', errors', calls')"
    by (auto simp: e split: sum.splits)
  have "ns1 k = ns k"
    by (rule validate_step_frame [OF one]) (use Cons.prems(2) e in auto)
  moreover have "ns' k = ns1 k"
    by (rule Cons.IH [OF rest]) (use Cons.prems(2) in auto)
  ultimately show ?case by simp
qed

text \<open>
  With no two definitions on one attribute, every definition is checked against the value
  that the namespace held for it when validation began, and what it adds is kept.
\<close>

lemma validate_loop_adds:
  assumes "validate_loop R safe defs (ns, errors, calls) = Inr (ns', errors', calls')"
    and "distinct (map (\<lambda>e. attr_name (fst e)) defs)"
  shows "errors' = errors @
           concat (map (\<lambda>(n, d). def_errors R safe n d (getattr_or_none ns (attr_name n))) defs) \<and>
         calls' = calls @
           concat (map (\<lambda>(n, d). def_calls R safe n d (getattr_or_none ns (attr_name n))) defs)"
  using assms
proof (induction defs arbitrary: ns errors calls)
  case Nil
  then show ?case by simp
next
  case (Cons e defs)
  obtain n d where e: "e = (n, d)" by (cases e)
  from Cons.prems(1) obtain ns1 errors1 calls1 where
    one: "validate_step R safe (n, d) (ns, errors, calls) = Inr (ns1, errors1, calls1)" and
    rest: "validate_loop R safe defs (ns1, errors1, calls1) = Inr (ns', errors', calls')"
    by (auto simp: e split: sum.splits)
  from Cons.prems(2) e have dist: "distinct (map (\<lambda>e. attr_name (fst e)) defs)"
    and fresh: "\<And>n' d'. (n', d') \<in> set defs \<Longrightarrow> attr_name n' \<noteq> attr_name n"
    by force+
  have same: "getattr_or_none ns1 (attr_name n') = getattr_or_none ns (attr_name n')"
    if "(n', d') \<in> set defs" for n' d'
    using validate_step_frame [OF one, of "attr_name n'"] fresh [OF that]
    by (simp add: getattr_or_none_def)
  have maps:
    "map (\<lambda>(n, d). def_errors R safe n d (getattr_or_none ns1 (attr_name n))) defs =
     map (\<lambda>(n, d). def_errors R safe n d (getattr_or_none ns (attr_name n))) defs"
    "map (\<lambda>(n, d). def_calls R safe n d (getattr_or_none ns1 (attr_name n))) defs =
     map (\<lambda>(n, d). def_calls R safe n d (getattr_or_none ns (attr_name n))) defs"
    using same by (auto intro!: map_cong)
  from validate_step_adds [OF one] Cons.IH [OF rest dist] maps e show ?case
    by simp
qed


subsection \<open>The command-line tier\<close>

text \<open>
  The value that the command line alone gives an argument of type \<open>t\<close>: true for a flag,
  the converted token otherwise; \<open>None\<close> when the token is missing or cannot be converted.
\<close>

definition command_line_value ::
  "'f runtime \<Rightarrow> bool \<Rightarrow> pytype \<Rightarrow> string option \<Rightarrow> 'f pyval option" where
  "command_line_value R safe t tok =
     (if t = TBool then Some (VBool True)
      else
        (case tok of
           None \<Rightarrow> None
         | Some s \<Rightarrow>
             (case construct R t (VStr s) of
                Inl e \<Rightarrow> None
              | Inr v \<Rightarrow> Some (unicode_safe_value R safe v))))"

lemma construct_str_isinstance: "construct R t (VStr s) = Inr v \<Longrightarrow> isinstance v t"
  by (cases t) (auto split: option.splits)

lemma split_definitions:
  assumes "distinct (map fst defs)" and "map_of defs name = Some d"
  shows "\<exists>before after. defs = before @ (name, d) # after \<and>
           name \<notin> fst ` set before \<and> name \<notin> fst ` set after"
proof -
  from assms(2) have "(name, d) \<in> set defs" by (rule map_of_SomeD)
  then obtain before after where defs: "defs = before @ (name, d) # after"
    by (auto dest: split_list)
  with assms(1) have "distinct (map fst before @ name # map fst after)" by simp
  then have "name \<notin> set (map fst before)" "name \<notin> set (map fst after)" by auto
  then have "name \<notin> fst ` set before \<and> name \<notin> fst ` set after" by simp
  with defs show ?thesis by blast
qed

lemma argparse_parse_args_exit:
  assumes "argparse_parse_args R acts args = Inl r"
  shows "\<exists>code report. r = Exited code report \<and> length report \<le> 1"
proof (cases "consume R acts args (initial_namespace acts, [], [])")
  case (Inl r')
  with assms have "r = r'" by (simp add: argparse_parse_args_def)
  with consume_exit [OF Inl] show ?thesis by simp
next
  case (Inr st)
  obtain ns seen extras where st: "st = (ns, seen, extras)" by (cases st)
  show ?thesis
  proof (cases "finalize R seen acts (ns, [])")
    case (Inl r')
    with assms Inr st have "r = r'" by (simp add: argparse_parse_args_def)
    with finalize_exit [OF Inl] show ?thesis by auto
  next
    case fin: (Inr st')
    obtain ns' req where st': "st' = (ns', req)" by (cases st')
    from assms Inr st fin st' show ?thesis
      by (auto simp: argparse_parse_args_def split: if_splits)
  qed
qed

lemma argparse_parse_args_returned:
  assumes "argparse_parse_args R acts args = Inr ns0"
  shows "\<exists>ns1 seen.
           consume R acts args (initial_namespace acts, [], []) = Inr (ns1, seen, []) \<and>
           finalize R seen acts (ns1, []) = Inr (ns0, [])"
proof (cases "consume R acts args (initial_namespace acts, [], [])")
  case (Inl r')
  with assms show ?thesis by (simp add: argparse_parse_args_def)
next
  case (Inr st)
  obtain ns seen extras where st: "st = (ns, seen, extras)" by (cases st)
  show ?thesis
  proof (cases "finalize R seen acts (ns, [])")
    case (Inl r')
    with assms Inr st show ?thesis by (simp add: argparse_parse_args_def)
  next
    case fin: (Inr st')
    obtain ns' req where st': "st' = (ns', req)" by (cases st')
    from assms Inr st fin st' show ?thesis
      by (auto simp: argparse_parse_args_def split: if_splits)
  qed
qed

lemma validate_args_returned:
  assumes "result (validate_args R P ns0) = Returned ns"
  shows "\<exists>calls. validate_loop R (unicode_safe P) (args_definitions P) (ns0, [], []) =
           Inr (ns, [], calls)"
proof (cases "validate_loop R (unicode_safe P) (args_definitions P) (ns0, [], [])")
  case (Inl x)
  obtain e calls where "x = (e, calls)" by (cases x)
  with assms Inl show ?thesis by (simp add: validate_args_def)
next
  case (Inr st)
  obtain ns' errors calls where "st = (ns', errors, calls)" by (cases st)
  with assms Inr show ?thesis by (simp add: validate_args_def split: if_splits)
qed

lemma result_on_system_exit: "result (on_system_exit P args out) = result out"
  by (cases "result out") (simp_all add: on_system_exit_def)

lemma validator_calls_on_system_exit:
  "validator_calls (on_system_exit P args out) = validator_calls out"
  by (cases "result out") (simp_all add: on_system_exit_def)

lemma parse_args_returned:
  assumes "result (parse_args R P config_files environ argv0) = Returned ns"
  shows "\<exists>acts ns0 calls.
           build_actions (args_definitions P) (load_config_defaults config_files)
             (load_env_defaults R (args_definitions P) environ) = Inr acts \<and>
           argparse_parse_args R acts (normalize_argv R P argv0) = Inr ns0 \<and>
           validate_loop R (unicode_safe P) (args_definitions P) (ns0, [], []) =
             Inr (ns, [], calls)"
proof (cases "build_actions (args_definitions P) (load_config_defaults config_files)
             (load_env_defaults R (args_definitions P) environ)")
  case (Inl e)
  with assms show ?thesis by (simp add: parse_args_def)
next
  case acts: (Inr acts)
  show ?thesis
  proof (cases "argparse_parse_args R acts (normalize_argv R P argv0)")
    case (Inl r)
    with argparse_parse_args_exit [OF Inl] assms acts show ?thesis
      by (auto simp: parse_args_def Let_def result_on_system_exit)
  next
    case (Inr ns0)
    with assms acts have "result (validate_args R P ns0) = Returned ns"
      by (simp add: parse_args_def Let_def result_on_system_exit)
    from validate_args_returned [OF this] acts Inr show ?thesis by simp
  qed
qed


lemma make_action_simps:
  "act_flag (make_action n d dv) = n"
  "act_dest (make_action n d dv) = dest_of n"
  "act_type (make_action n d dv) = (if arg_type d = TBool then None else Some (arg_type d))"
  "act_default (make_action n d dv) = dv"
  "act_required (make_action n d dv) = arg_required d"
  by (simp_all add: make_action_def)

text \<open>
  No other definition is stored by \<^verbatim>\<open>argparse\<close>, or read by \<^verbatim>\<open>_validate_args\<close>,
  under the attribute of this one, and the two attributes of this one are the same (the
  name has no third dash in front).
\<close>

definition sole_attribute :: "(string \<times> 'f argdef) list \<Rightarrow> string \<Rightarrow> bool" where
  "sole_attribute defs name \<longleftrightarrow>
     dest_of name = attr_name name \<and>
     (\<forall>(n, d) \<in> set defs. n \<noteq> name \<longrightarrow>
        dest_of n \<noteq> dest_of name \<and> attr_name n \<noteq> attr_name name)"

lemma command_line_stored:
  assumes acts: "acts = map (\<lambda>(n, d). make_action n d (f n d)) defs"
    and d: "map_of defs name = Some d"
    and sole: "sole_attribute defs name"
    and args: "args = pre @ (name, tok) # post" "name \<notin> fst ` set post"
    and parsed: "argparse_parse_args R acts args = Inr ns0"
  shows "\<exists>v. ns0 (attr_name name) = Some v \<and> isinstance v (arg_type d) \<and>
           command_line_value R safe (arg_type d) tok = Some (unicode_safe_value R safe v)"
proof -
  let ?a = "make_action name d (f name d)"
  have found: "find (\<lambda>a. act_flag a = name) acts = Some ?a"
    unfolding acts by (simp add: find_action d)
  have others: "act_dest a \<noteq> dest_of name"
    if "a \<in> set acts" "act_flag a \<noteq> name" for a
  proof -
    from that(1) obtain n d' where "(n, d') \<in> set defs" "a = make_action n d' (f n d')"
      unfolding acts by auto
    with that(2) sole show ?thesis
      by (auto simp: sole_attribute_def make_action_simps)
  qed
  from argparse_parse_args_returned [OF parsed] obtain ns1 seen where
    cons: "consume R acts args (initial_namespace acts, [], []) = Inr (ns1, seen, [])" and
    fin: "finalize R seen acts (ns1, []) = Inr (ns0, [])"
    by blast
  from cons obtain st1 where
    pre: "consume R acts pre (initial_namespace acts, [], []) = Inr st1" and
    tl: "consume R acts ((name, tok) # post) st1 = Inr (ns1, seen, [])"
    unfolding args(1) consume_append by (auto split: sum.splits)
  obtain nsa seena extrasa where st1: "st1 = (nsa, seena, extrasa)" by (cases st1)
  from tl obtain st2 where
    one: "consume_one R acts (name, tok) (nsa, seena, extrasa) = Inr st2" and
    post: "consume R acts post st2 = Inr (ns1, seen, [])"
    unfolding st1 by (auto split: sum.splits)
  obtain nsb seenb extrasb where st2: "st2 = (nsb, seenb, extrasb)" by (cases st2)
  from consume_one_own [OF one [unfolded st2] found]
  have seenb: "name \<in> set seenb" and
    stored: "case act_type ?a of
               None \<Rightarrow> nsb (act_dest ?a) = Some (VBool True)
             | Some t \<Rightarrow> \<exists>s v. tok = Some s \<and> construct R t (VStr s) = Inr v \<and>
                           nsb (act_dest ?a) = Some v"
    by simp_all
  have "ns1 (dest_of name) = nsb (dest_of name)"
  proof (rule consume_frame [OF post [unfolded st2]])
    fix flag tok' a
    assume "(flag, tok') \<in> set post" "find (\<lambda>a. act_flag a = flag) acts = Some a"
    with args(2) have "act_flag a \<noteq> name" "a \<in> set acts"
      by (auto simp: find_Some_iff image_iff)
    then show "act_dest a \<noteq> dest_of name" using others by blast
  qed
  moreover from consume_seen [OF post [unfolded st2]] seenb have seen: "name \<in> set seen"
    by auto
  have "ns0 (dest_of name) = ns1 (dest_of name)"
  proof (rule finalize_frame [OF fin])
    fix a assume "a \<in> set acts" "act_dest a = dest_of name"
    with others have "act_flag a = name" by blast
    with seen show "act_flag a \<in> set seen" by simp
  qed
  ultimately have ns0: "ns0 (attr_name name) = nsb (act_dest ?a)"
    using sole by (simp add: sole_attribute_def make_action_simps)
  show ?thesis
  proof (cases "arg_type d = TBool")
    case True
    with stored ns0 show ?thesis
      by (simp add: make_action_simps command_line_value_def unicode_safe_value_def)
  next
    case False
    with stored obtain s v where "tok = Some s" "construct R (arg_type d) (VStr s) = Inr v"
      "nsb (act_dest ?a) = Some v"
      by (auto simp: make_action_simps)
    with False ns0 construct_str_isinstance [of R "arg_type d" s v] show ?thesis
      by (simp add: command_line_value_def)
  qed
qed

lemma validate_loop_stores:
  assumes dist: "distinct (map fst defs)" and d: "map_of defs name = Some d"
    and sole: "sole_attribute defs name"
    and loop: "validate_loop R safe defs (ns0, errors, calls) = Inr (ns, errors', calls')"
    and v: "ns0 (attr_name name) = Some v"
  shows "ns (attr_name name) = Some (validated_value R safe (arg_type d) v)"
proof -
  from split_definitions [OF dist d] obtain before after where
    defs: "defs = before @ (name, d) # after" and
    fresh: "name \<notin> fst ` set before" "name \<notin> fst ` set after"
    by blast
  have other: "attr_name n \<noteq> attr_name name" if "(n, d') \<in> set before \<union> set after" for n d'
  proof -
    from that fresh have "n \<noteq> name" by (auto simp: image_iff)
    moreover from that defs have "(n, d') \<in> set defs" by auto
    ultimately show ?thesis using sole by (auto simp: sole_attribute_def)
  qed
  from loop obtain st1 where
    l1: "validate_loop R safe before (ns0, errors, calls) = Inr st1" and
    l2: "validate_loop R safe ((name, d) # after) st1 = Inr (ns, errors', calls')"
    unfolding defs validate_loop_append by (auto split: sum.splits)
  obtain ns1 e1 c1 where st1: "st1 = (ns1, e1, c1)" by (cases st1)
  from l2 obtain st2 where
    one: "validate_step R safe (name, d) (ns1, e1, c1) = Inr st2" and
    l3: "validate_loop R safe after st2 = Inr (ns, errors', calls')"
    unfolding st1 by (auto split: sum.splits)
  obtain ns2 e2 c2 where st2: "st2 = (ns2, e2, c2)" by (cases st2)
  have "ns1 (attr_name name) = ns0 (attr_name name)"
    by (rule validate_loop_frame [OF l1 [unfolded st1]]) (use other in auto)
  with v have "ns1 (attr_name name) = Some v" by simp
  from validate_step_stores [OF one [unfolded st2] this]
  have "ns2 (attr_name name) = Some (validated_value R safe (arg_type d) v)" .
  moreover have "ns (attr_name name) = ns2 (attr_name name)"
    by (rule validate_loop_frame [OF l3 [unfolded st2]]) (use other in auto)
  ultimately show ?thesis by simp
qed


subsection \<open>The tiers below the command line\<close>

text \<open>
  The default that \<^verbatim>\<open>parse_args\<close> hands to \<^verbatim>\<open>argparse\<close> is in the namespace before
  the command line is read, and an option that the command line does not give leaves it
  there.
\<close>

lemma fold_initial_namespace:
  "fold (\<lambda>a ns. if ns (act_dest a) = None then ns(act_dest a \<mapsto> act_default a) else ns) acts ns k =
     (case ns k of
        Some v \<Rightarrow> Some v
      | None \<Rightarrow> map_option act_default (find (\<lambda>a. act_dest a = k) acts))"
proof (induction acts arbitrary: ns)
  case Nil
  then show ?case by (simp split: option.splits)
next
  case (Cons a acts)
  show ?case
    by (cases "ns k"; cases "act_dest a = k") (simp_all add: Cons.IH)
qed

lemma initial_namespace_lookup:
  "initial_namespace acts k = map_option act_default (find (\<lambda>a. act_dest a = k) acts)"
  by (simp add: initial_namespace_def fold_initial_namespace)

lemma finalize_append:
  "finalize R seen (xs @ ys) st =
     (case finalize R seen xs st of Inl r \<Rightarrow> Inl r | Inr st' \<Rightarrow> finalize R seen ys st')"
  by (induction xs arbitrary: st) (simp_all split: sum.splits)

lemma finalize_one_other:
  assumes "finalize_one R seen a (ns, req) = Inr (ns', req')" and "act_dest a \<noteq> k"
  shows "ns' k = ns k"
  using assms
  by (auto simp: finalize_one_def split: if_splits option.splits sum.splits pyval.splits)

lemma finalize_other:
  assumes "finalize R seen acts (ns, req) = Inr (ns', req')"
    and "\<And>a. a \<in> set acts \<Longrightarrow> act_dest a \<noteq> k"
  shows "ns' k = ns k"
  using assms
proof (induction acts arbitrary: ns req)
  case Nil
  then show ?case by simp
next
  case (Cons a acts)
  from Cons.prems(1) obtain ns1 req1 where
    one: "finalize_one R seen a (ns, req) = Inr (ns1, req1)" and
    rest: "finalize R seen acts (ns1, req1) = Inr (ns', req')"
    by (auto split: sum.splits)
  have "ns1 k = ns k"
    by (rule finalize_one_other [OF one]) (use Cons.prems(2) in auto)
  moreover have "ns' k = ns1 k"
    by (rule Cons.IH [OF rest]) (use Cons.prems(2) in auto)
  ultimately show ?case by simp
qed

text \<open>
  What \<^verbatim>\<open>argparse\<close> makes of a default that stayed in the namespace: a string is
  converted by the type of the option, when the option has one.
\<close>

definition argparse_default :: "'f runtime \<Rightarrow> pytype option \<Rightarrow> 'f pyval \<Rightarrow> 'f pyval" where
  "argparse_default R t default_value =
     (case default_value of
        VStr s \<Rightarrow>
          (case t of
             None \<Rightarrow> default_value
           | Some t' \<Rightarrow> (case construct R t' (VStr s) of Inl e \<Rightarrow> default_value | Inr v \<Rightarrow> v))
      | _ \<Rightarrow> default_value)"

lemma finalize_one_unseen:
  assumes "finalize_one R seen a (ns, req) = Inr (ns', req')"
    and "act_flag a \<notin> set seen" and "\<not> act_required a"
    and "ns (act_dest a) = Some (act_default a)"
  shows "ns' (act_dest a) = Some (argparse_default R (act_type a) (act_default a))"
  using assms
  by (auto simp: finalize_one_def argparse_default_def
        split: if_splits option.splits sum.splits pyval.splits)

lemma find_append_list:
  "find P (xs @ ys) = (case find P xs of None \<Rightarrow> find P ys | Some x \<Rightarrow> Some x)"
  by (induction xs) simp_all

lemma default_stored:
  assumes acts: "acts = map (\<lambda>(n, d). make_action n d (f n d)) defs"
    and dist: "distinct (map fst defs)"
    and d: "map_of defs name = Some d"
    and sole: "sole_attribute defs name"
    and absent: "name \<notin> fst ` set args"
    and parsed: "argparse_parse_args R acts args = Inr ns0"
  shows "\<not> arg_required d \<and>
         ns0 (attr_name name) =
           Some (argparse_default R (if arg_type d = TBool then None else Some (arg_type d))
                   (f name d))"
proof -
  let ?a = "make_action name d (f name d)"
  let ?k = "dest_of name"
  let ?mk = "\<lambda>(n, d). make_action n d (f n d)"
  from split_definitions [OF dist d] obtain before after where
    defs: "defs = before @ (name, d) # after" and
    fresh: "name \<notin> fst ` set before" "name \<notin> fst ` set after"
    by blast
  have other: "act_dest a \<noteq> ?k" if "a \<in> set (map ?mk before) \<union> set (map ?mk after)" for a
  proof -
    from that obtain n d' where nd: "(n, d') \<in> set before \<union> set after"
      "a = make_action n d' (f n d')" by auto
    with fresh have "n \<noteq> name" by (auto simp: image_iff)
    moreover from nd defs have "(n, d') \<in> set defs" by auto
    ultimately show ?thesis using sole nd(2)
      by (auto simp: sole_attribute_def make_action_simps)
  qed
  have split: "acts = map ?mk before @ ?a # map ?mk after"
    unfolding acts defs by simp
  have "find (\<lambda>a. act_dest a = ?k) (map ?mk before) = None"
    using other by (auto simp: find_None_iff)
  then have init: "initial_namespace acts ?k = Some (f name d)"
    unfolding initial_namespace_lookup split
    by (simp add: find_append_list make_action_simps)
  from argparse_parse_args_returned [OF parsed] obtain ns1 seen where
    cons: "consume R acts args (initial_namespace acts, [], []) = Inr (ns1, seen, [])" and
    fin: "finalize R seen acts (ns1, []) = Inr (ns0, [])"
    by blast
  have "ns1 ?k = initial_namespace acts ?k"
  proof (rule consume_frame [OF cons])
    fix flag tok a
    assume "(flag, tok) \<in> set args" "find (\<lambda>a. act_flag a = flag) acts = Some a"
    with absent have "act_flag a \<noteq> name" "a \<in> set acts"
      by (auto simp: find_Some_iff image_iff)
    with split have "a \<in> set (map ?mk before) \<union> set (map ?mk after)"
      by (auto simp: make_action_simps)
    then show "act_dest a \<noteq> ?k" by (rule other)
  qed
  with init have ns1: "ns1 ?k = Some (f name d)" by simp
  from consume_seen [OF cons] absent have unseen: "name \<notin> set seen" by auto
  have "?a \<in> set acts" unfolding split by simp
  with finalize_required [OF fin] unseen have notreq: "\<not> arg_required d"
    by (auto simp: make_action_simps)
  from fin obtain st1 where
    f1: "finalize R seen (map ?mk before) (ns1, []) = Inr st1" and
    f2: "finalize R seen (?a # map ?mk after) st1 = Inr (ns0, [])"
    unfolding split finalize_append by (auto split: sum.splits)
  obtain nsa reqa where st1: "st1 = (nsa, reqa)" by (cases st1)
  from f2 obtain st2 where
    one: "finalize_one R seen ?a (nsa, reqa) = Inr st2" and
    f3: "finalize R seen (map ?mk after) st2 = Inr (ns0, [])"
    unfolding st1 by (auto split: sum.splits)
  obtain nsb reqb where st2: "st2 = (nsb, reqb)" by (cases st2)
  have "nsa ?k = ns1 ?k"
    by (rule finalize_other [OF f1 [unfolded st1]]) (use other in auto)
  with ns1 have "nsa (act_dest ?a) = Some (act_default ?a)"
    by (simp add: make_action_simps)
  from finalize_one_unseen [OF one [unfolded st2] _ _ this] unseen notreq
  have "nsb ?k = Some (argparse_default R (act_type ?a) (f name d))"
    by (simp add: make_action_simps)
  moreover have "ns0 ?k = nsb ?k"
    by (rule finalize_other [OF f3 [unfolded st2]]) (use other in auto)
  ultimately show ?thesis
    using notreq sole by (simp add: sole_attribute_def make_action_simps)
qed

text \<open>
  What becomes of the default that \<^verbatim>\<open>parse_args\<close> hands to \<^verbatim>\<open>argparse\<close> when the
  command line does not give the argument and the run goes through: \<^verbatim>\<open>argparse\<close>
  converts a string by the type of the option (a flag has none), and
  \<^verbatim>\<open>_validate_args\<close> does its part.
\<close>

definition resolved_default :: "'f runtime \<Rightarrow> bool \<Rightarrow> pytype \<Rightarrow> 'f pyval \<Rightarrow> 'f pyval" where
  "resolved_default R safe t default_value =
     validated_value R safe t
       (argparse_default R (if t = TBool then None else Some t) default_value)"

lemma merged_default_tiers:
  "merged_default d cfg env name =
     (case env name of
        Some e \<Rightarrow> e
      | None \<Rightarrow> (case cfg name of Some c \<Rightarrow> c | None \<Rightarrow> arg_default d))"
  by (simp add: merged_default_def Let_def split: option.splits)

lemma lower_tier_value:
  assumes "distinct (map fst (args_definitions P))"
    and "map_of (args_definitions P) name = Some d"
    and "sole_attribute (args_definitions P) name"
    and "name \<notin> fst ` set (normalize_argv R P argv0)"
    and "result (parse_args R P config_files environ argv0) = Returned ns"
  shows "ns (attr_name name) =
           Some (resolved_default R (unicode_safe P) (arg_type d)
                   (case load_env_defaults R (args_definitions P) environ name of
                      Some e \<Rightarrow> e
                    | None \<Rightarrow>
                        (case load_config_defaults config_files name of
                           Some c \<Rightarrow> c
                         | None \<Rightarrow> arg_default d)))"
proof -
  from parse_args_returned [OF assms(5)] obtain acts ns0 calls where
    acts: "build_actions (args_definitions P) (load_config_defaults config_files)
             (load_env_defaults R (args_definitions P) environ) = Inr acts" and
    parsed: "argparse_parse_args R acts (normalize_argv R P argv0) = Inr ns0" and
    loop: "validate_loop R (unicode_safe P) (args_definitions P) (ns0, [], []) =
             Inr (ns, [], calls)"
    by blast
  from default_stored [OF build_actions_map [OF acts] assms(1,2,3,4) parsed]
  have "ns0 (attr_name name) =
          Some (argparse_default R (if arg_type d = TBool then None else Some (arg_type d))
                  (merged_default d (load_config_defaults config_files)
                     (load_env_defaults R (args_definitions P) environ) name))"
    by simp
  from validate_loop_stores [OF assms(1,2,3) loop this]
  show ?thesis
    by (simp add: resolved_default_def merged_default_tiers)
qed

lemma resolved_default_bool:
  "resolved_default R safe TBool (VBool b) = VBool b"
  by (simp add: resolved_default_def validated_value_def argparse_default_def
        unicode_safe_value_def)

text \<open>
  With no value from a config file or from the environment, the declared default is what
  is resolved: the smart default of the type that \<^verbatim>\<open>add_argument\<close> stored, and
  \<^verbatim>\<open>None\<close> for a Boolean, for which it stores none.
\<close>

lemma smart_default_resolved:
  assumes "t \<noteq> TBool" and "text_norm R [] = []"
  shows "resolved_default R safe t (get_smart_default R t) = get_smart_default R t"
  using assms
  by (cases t)
     (simp_all add: resolved_default_def validated_value_def argparse_default_def
        unicode_safe_value_def)

lemma zero_value_resolved:
  assumes "distinct (map fst (args_definitions P))"
    and "map_of (args_definitions P) name = Some d"
    and "sole_attribute (args_definitions P) name"
    and "name \<notin> fst ` set (normalize_argv R P argv0)"
    and "result (parse_args R P config_files environ argv0) = Returned ns"
    and "load_config_defaults config_files name = None"
    and "load_env_defaults R (args_definitions P) environ name = None"
    and "arg_type d \<noteq> TBool" and "arg_default d = get_smart_default R (arg_type d)"
    and "text_norm R [] = []"
  shows "ns (attr_name name) = Some (get_smart_default R (arg_type d))"
  using lower_tier_value [OF assms(1-5)] assms(6-10)
  by (simp add: smart_default_resolved)

lemma boolean_without_default:
  assumes "distinct (map fst (args_definitions P))"
    and "map_of (args_definitions P) name = Some d"
    and "sole_attribute (args_definitions P) name"
    and "name \<notin> fst ` set (normalize_argv R P argv0)"
    and "result (parse_args R P config_files environ argv0) = Returned ns"
    and "load_config_defaults config_files name = None"
    and "load_env_defaults R (args_definitions P) environ name = None"
    and "arg_type d = TBool" and "arg_default d = VNone"
  shows "ns (attr_name name) = Some VNone"
  using lower_tier_value [OF assms(1-5)] assms(6-9)
  by (simp add: resolved_default_def validated_value_def argparse_default_def
        unicode_safe_value_def)

text \<open>
  C1. When a declared default, a config value, an environment value and a command-line
  value are there for one argument, the value after \<^verbatim>\<open>parse_args\<close> is that of the
  command line; below the command line, the environment value comes before the config
  value, and that before the declared default. For a run that returns: if the command line
  gives the argument, its attribute holds \<open>command_line_value\<close>, which is a function of
  the type of the argument and of the token and of nothing else (true for a Boolean flag,
  otherwise the token converted by the type, a string normalised once more when
  \<^verbatim>\<open>unicode_safe\<close> is on), so it holds whichever of the lower tiers are present; if
  the command line does not give the argument, its attribute holds \<open>resolved_default\<close>
  of the environment value when there is one, else of the config value when there is
  one, else of the declared default. The registry is a dictionary, so no name occurs
  twice, and no other definition is stored under the attribute of this one.
\<close>

theorem command_line_wins:
  assumes "distinct (map fst (args_definitions P))"
    and "map_of (args_definitions P) name = Some d"
    and "sole_attribute (args_definitions P) name"
    and "result (parse_args R P config_files environ argv0) = Returned ns"
  shows "(\<forall>pre tok post.
            normalize_argv R P argv0 = pre @ (name, tok) # post \<and> name \<notin> fst ` set post \<longrightarrow>
            (\<exists>v. ns (attr_name name) = Some v \<and>
                 command_line_value R (unicode_safe P) (arg_type d) tok = Some v)) \<and>
         (name \<notin> fst ` set (normalize_argv R P argv0) \<longrightarrow>
            ns (attr_name name) =
              Some (resolved_default R (unicode_safe P) (arg_type d)
                      (case load_env_defaults R (args_definitions P) environ name of
                         Some e \<Rightarrow> e
                       | None \<Rightarrow>
                           (case load_config_defaults config_files name of
                              Some c \<Rightarrow> c
                            | None \<Rightarrow> arg_default d))))"
proof (intro conjI allI impI)
  fix pre tok post
  assume argv: "normalize_argv R P argv0 = pre @ (name, tok) # post \<and> name \<notin> fst ` set post"
  from parse_args_returned [OF assms(4)] obtain acts ns0 calls where
    acts: "build_actions (args_definitions P) (load_config_defaults config_files)
             (load_env_defaults R (args_definitions P) environ) = Inr acts" and
    parsed: "argparse_parse_args R acts (normalize_argv R P argv0) = Inr ns0" and
    loop: "validate_loop R (unicode_safe P) (args_definitions P) (ns0, [], []) =
             Inr (ns, [], calls)"
    by blast
  from argv have argv1: "normalize_argv R P argv0 = pre @ (name, tok) # post"
    and argv2: "name \<notin> fst ` set post" by simp_all
  from command_line_stored [OF build_actions_map [OF acts] assms(2,3) argv1 argv2 parsed,
      of "unicode_safe P"]
  obtain v where v: "ns0 (attr_name name) = Some v" "isinstance v (arg_type d)"
    "command_line_value R (unicode_safe P) (arg_type d) tok =
       Some (unicode_safe_value R (unicode_safe P) v)"
    by blast
  from validate_loop_stores [OF assms(1,2,3) loop v(1)] v(2,3)
  show "\<exists>v. ns (attr_name name) = Some v \<and>
               command_line_value R (unicode_safe P) (arg_type d) tok = Some v"
    by (simp add: validated_value_isinstance)
next
  assume "name \<notin> fst ` set (normalize_argv R P argv0)"
  from lower_tier_value [OF assms(1,2,3) this assms(4)]
  show "ns (attr_name name) =
              Some (resolved_default R (unicode_safe P) (arg_type d)
                      (case load_env_defaults R (args_definitions P) environ name of
                         Some e \<Rightarrow> e
                       | None \<Rightarrow>
                           (case load_config_defaults config_files name of
                              Some c \<Rightarrow> c
                            | None \<Rightarrow> arg_default d)))" .
qed

text \<open>
  The coercion of a raw string token to a Boolean. For a Boolean argument whose
  environment variable is set, the environment tier gives true exactly when the token,
  lowercased, is one of \<^verbatim>\<open>true\<close>, \<^verbatim>\<open>1\<close>, \<^verbatim>\<open>yes\<close>, \<^verbatim>\<open>on\<close>, and false for
  every other token, the empty string among them. When the flag is absent from the command
  line and the run returns, that Boolean is the value of the argument. \<^verbatim>\<open>TRUE\<close>,
  \<^verbatim>\<open>1\<close>, \<^verbatim>\<open>yes\<close> and \<^verbatim>\<open>On\<close> give true; \<^verbatim>\<open>false\<close>, the empty string and
  \<^verbatim>\<open>nope\<close> give false. (On the command line a Boolean argument is a flag without a
  token.)
\<close>

lemma boolean_coercion:
  assumes "distinct (map fst (args_definitions P))"
    and "map_of (args_definitions P) name = Some d"
    and "arg_type d = TBool" and "arg_env_var d \<noteq> []"
    and "environ (arg_env_var d) = Some token"
  shows "load_env_defaults R (args_definitions P) environ name =
           Some (VBool (lower token = ''true'' \<or> lower token = ''1'' \<or>
                        lower token = ''yes'' \<or> lower token = ''on'')) \<and>
         (\<forall>config_files argv0 ns.
            sole_attribute (args_definitions P) name \<and>
            name \<notin> fst ` set (normalize_argv R P argv0) \<and>
            result (parse_args R P config_files environ argv0) = Returned ns \<longrightarrow>
            ns (attr_name name) =
              Some (VBool (lower token = ''true'' \<or> lower token = ''1'' \<or>
                           lower token = ''yes'' \<or> lower token = ''on''))) \<and>
         env_convert R TBool ''TRUE'' = Some (VBool True) \<and>
         env_convert R TBool ''1'' = Some (VBool True) \<and>
         env_convert R TBool ''yes'' = Some (VBool True) \<and>
         env_convert R TBool ''On'' = Some (VBool True) \<and>
         env_convert R TBool ''false'' = Some (VBool False) \<and>
         env_convert R TBool [] = Some (VBool False) \<and>
         env_convert R TBool ''nope'' = Some (VBool False)"
proof -
  let ?b = "lower token = ''true'' \<or> lower token = ''1'' \<or>
            lower token = ''yes'' \<or> lower token = ''on''"
  from assms have env: "load_env_defaults R (args_definitions P) environ name = Some (VBool ?b)"
    by (auto simp: load_env_defaults_lookup env_entry_def env_convert_def)
  have run: "ns (attr_name name) = Some (VBool ?b)"
    if "sole_attribute (args_definitions P) name"
      and "name \<notin> fst ` set (normalize_argv R P argv0)"
      and "result (parse_args R P config_files environ argv0) = Returned ns"
    for config_files argv0 ns
    using lower_tier_value [OF assms(1,2) that] assms(3)
    by (simp add: env resolved_default_bool)
  have examples: "env_convert R TBool ''TRUE'' = Some (VBool True) \<and>
         env_convert R TBool ''1'' = Some (VBool True) \<and>
         env_convert R TBool ''yes'' = Some (VBool True) \<and>
         env_convert R TBool ''On'' = Some (VBool True) \<and>
         env_convert R TBool ''false'' = Some (VBool False) \<and>
         env_convert R TBool [] = Some (VBool False) \<and>
         env_convert R TBool ''nope'' = Some (VBool False)"
    by (simp add: env_convert_def lower_def lower_char_def)
  from env run examples show ?thesis by blast
qed


text \<open>
  A string that a config file gives for a Boolean argument is no token of the environment:
  it goes to the \<^verbatim>\<open>store_true\<close> flag as its default, and \<^verbatim>\<open>_validate_args\<close>
  converts it with \<^verbatim>\<open>bool(value)\<close>, which is true for every string that is not
  empty.
\<close>

lemma resolved_default_bool_str:
  "resolved_default R safe TBool (VStr s) = VBool ((if safe then text_norm R s else s) \<noteq> [])"
  by (simp add: resolved_default_def validated_value_def argparse_default_def
        unicode_safe_value_def)

lemma config_boolean_string:
  assumes "distinct (map fst (args_definitions P))"
    and "map_of (args_definitions P) name = Some d"
    and "sole_attribute (args_definitions P) name"
    and "name \<notin> fst ` set (normalize_argv R P argv0)"
    and "result (parse_args R P config_files environ argv0) = Returned ns"
    and "arg_type d = TBool"
    and "load_env_defaults R (args_definitions P) environ name = None"
    and "load_config_defaults config_files name = Some (VStr token)"
  shows "ns (attr_name name) =
           Some (VBool ((if unicode_safe P then text_norm R token else token) \<noteq> []))"
  using lower_tier_value [OF assms(1-5)] assms(6-8)
  by (simp add: resolved_default_bool_str)


subsection \<open>How a run ends\<close>

text \<open>
  The lines and the calls of all definitions, from the namespace that validation starts
  with.
\<close>

definition all_errors :: "'f runtime \<Rightarrow> 'f parser \<Rightarrow> 'f namespace \<Rightarrow> string list" where
  "all_errors R P ns =
     concat (map (\<lambda>(n, d). def_errors R (unicode_safe P) n d (getattr_or_none ns (attr_name n)))
               (args_definitions P))"

definition all_calls :: "'f runtime \<Rightarrow> 'f parser \<Rightarrow> 'f namespace \<Rightarrow> (string \<times> 'f pyval) list" where
  "all_calls R P ns =
     concat (map (\<lambda>(n, d). def_calls R (unicode_safe P) n d (getattr_or_none ns (attr_name n)))
               (args_definitions P))"

text \<open>
  A definition whose conversion raises an exception that \<^verbatim>\<open>_validate_args\<close> does not
  catch.
\<close>

definition def_raises :: "'f runtime \<Rightarrow> bool \<Rightarrow> string \<Rightarrow> 'f argdef \<Rightarrow> 'f pyval \<Rightarrow> bool" where
  "def_raises R safe arg_name arg_config fetched =
     (case type_validation R arg_name (arg_type arg_config) (unicode_safe_value R safe fetched) of
        Inl e \<Rightarrow> True
      | Inr x \<Rightarrow> False)"

definition any_raises :: "'f runtime \<Rightarrow> 'f parser \<Rightarrow> 'f namespace \<Rightarrow> bool" where
  "any_raises R P ns =
     list_ex (\<lambda>(n, d). def_raises R (unicode_safe P) n d (getattr_or_none ns (attr_name n)))
       (args_definitions P)"

lemma validate_args_outcome:
  assumes "distinct (map (\<lambda>e. attr_name (fst e)) (args_definitions P))"
  shows "(\<exists>e. result (validate_args R P ns) = Raised e) \<or>
         validator_calls (validate_args R P ns) = all_calls R P ns \<and>
         (if all_errors R P ns = [] then \<exists>ns'. result (validate_args R P ns) = Returned ns'
          else result (validate_args R P ns) = Exited 1 (map ValidationError (all_errors R P ns)))"
proof (cases "validate_loop R (unicode_safe P) (args_definitions P) (ns, [], [])")
  case (Inl x)
  obtain e calls where "x = (e, calls)" by (cases x)
  with Inl show ?thesis by (simp add: validate_args_def)
next
  case (Inr st)
  obtain ns' errors calls where st: "st = (ns', errors, calls)" by (cases st)
  from validate_loop_adds [OF Inr [unfolded st] assms]
  have "errors = all_errors R P ns" "calls = all_calls R P ns"
    by (simp_all add: all_errors_def all_calls_def)
  with Inr st show ?thesis by (simp add: validate_args_def)
qed

lemma validate_step_raises:
  "(\<exists>x. validate_step R safe (n, d) (ns, errors, calls) = Inl x) \<longleftrightarrow>
     def_raises R safe n d (getattr_or_none ns (attr_name n))"
  by (auto simp: validate_step_def def_raises_def Let_def split: sum.splits option.splits)

lemma validate_loop_raises:
  assumes "distinct (map (\<lambda>e. attr_name (fst e)) defs)"
  shows "(\<exists>x. validate_loop R safe defs (ns, errors, calls) = Inl x) \<longleftrightarrow>
           list_ex (\<lambda>(n, d). def_raises R safe n d (getattr_or_none ns (attr_name n))) defs"
  using assms
proof (induction defs arbitrary: ns errors calls)
  case Nil
  then show ?case by simp
next
  case (Cons e defs)
  obtain n d where e: "e = (n, d)" by (cases e)
  from Cons.prems e have dist: "distinct (map (\<lambda>e. attr_name (fst e)) defs)"
    and fresh: "\<And>n' d'. (n', d') \<in> set defs \<Longrightarrow> attr_name n' \<noteq> attr_name n"
    by force+
  show ?case
  proof (cases "validate_step R safe (n, d) (ns, errors, calls)")
    case (Inl x)
    with validate_step_raises [of R safe n d ns errors calls] e show ?thesis by auto
  next
    case (Inr st)
    obtain ns1 errors1 calls1 where st: "st = (ns1, errors1, calls1)" by (cases st)
    have same: "getattr_or_none ns1 (attr_name n') = getattr_or_none ns (attr_name n')"
      if "(n', d') \<in> set defs" for n' d'
      using validate_step_frame [OF Inr [unfolded st], of "attr_name n'"] fresh [OF that]
      by (simp add: getattr_or_none_def)
    have "list_ex (\<lambda>(n, d). def_raises R safe n d (getattr_or_none ns1 (attr_name n))) defs =
          list_ex (\<lambda>(n, d). def_raises R safe n d (getattr_or_none ns (attr_name n))) defs"
      by (rule list_ex_cong) (use same in auto)
    moreover from Inr validate_step_raises [of R safe n d ns errors calls]
    have "\<not> def_raises R safe n d (getattr_or_none ns (attr_name n))" by auto
    ultimately show ?thesis
      using Cons.IH [OF dist, of ns1 errors1 calls1] Inr st e by simp
  qed
qed

lemma validate_args_raises:
  assumes "distinct (map (\<lambda>e. attr_name (fst e)) (args_definitions P))"
  shows "(\<exists>e. result (validate_args R P ns) = Raised e) \<longleftrightarrow> any_raises R P ns"
proof -
  have "(\<exists>e. result (validate_args R P ns) = Raised e) \<longleftrightarrow>
        (\<exists>x. validate_loop R (unicode_safe P) (args_definitions P) (ns, [], []) = Inl x)"
    by (auto simp: validate_args_def split: sum.splits prod.splits)
  with validate_loop_raises [OF assms] show ?thesis
    by (simp add: any_raises_def)
qed

lemma required_missing:
  assumes d: "map_of (args_definitions P) name = Some d" and req: "arg_required d"
    and absent: "name \<notin> fst ` set (normalize_argv R P argv0)"
  shows "validator_calls (parse_args R P config_files environ argv0) = [] \<and>
         (case result (parse_args R P config_files environ argv0) of
            Returned ns \<Rightarrow> False
          | Exited code report \<Rightarrow> length report \<le> 1
          | Raised e \<Rightarrow> True)"
proof (cases "build_actions (args_definitions P) (load_config_defaults config_files)
             (load_env_defaults R (args_definitions P) environ)")
  case (Inl e)
  then show ?thesis by (simp add: parse_args_def)
next
  case acts: (Inr acts)
  let ?args = "normalize_argv R P argv0"
  show ?thesis
  proof (cases "argparse_parse_args R acts ?args")
    case (Inl r)
    with argparse_parse_args_exit [OF Inl] acts show ?thesis
      by (auto simp: parse_args_def Let_def result_on_system_exit validator_calls_on_system_exit)
  next
    case (Inr ns0)
    from argparse_parse_args_returned [OF Inr] obtain ns1 seen where
      cons: "consume R acts ?args (initial_namespace acts, [], []) = Inr (ns1, seen, [])" and
      fin: "finalize R seen acts (ns1, []) = Inr (ns0, [])"
      by blast
    from consume_seen [OF cons] absent have unseen: "name \<notin> set seen" by auto
    let ?a = "make_action name d (merged_default d (load_config_defaults config_files)
                 (load_env_defaults R (args_definitions P) environ) name)"
    from d have "(name, d) \<in> set (args_definitions P)" by (rule map_of_SomeD)
    then have "?a \<in> set acts"
      unfolding build_actions_map [OF acts] by force
    with finalize_required [OF fin] req unseen have False
      by (auto simp: make_action_simps)
    then show ?thesis ..
  qed
qed

text \<open>
  C2, as the code has it. A required argument that is missing from the command line is
  found by \<^verbatim>\<open>argparse\<close>, before \<^verbatim>\<open>_validate_args\<close> runs: the run ends there,
  with a report of at most one entry (the first error of the command line, or the one line
  that lists the missing required options) and without a call of any validator, in
  whatever order the definitions were declared; so a missing required argument and a type
  mismatch never make a report of two entries. What is exhaustive is \<^verbatim>\<open>_validate_args\<close>
  itself: with no two definitions on one attribute and no conversion that raises an
  exception it does not catch, when a definition fails there, the report holds the
  type-mismatch line and the validator-failure line of every definition that has one, in
  the order of declaration, all in one report, and the validator of every definition has
  been called.
\<close>

theorem validation_report:
  "(map_of (args_definitions P) name = Some d \<and> arg_required d \<and>
    name \<notin> fst ` set (normalize_argv R P argv0) \<longrightarrow>
      validator_calls (parse_args R P config_files environ argv0) = [] \<and>
      (case result (parse_args R P config_files environ argv0) of
         Returned ns' \<Rightarrow> False
       | Exited code report \<Rightarrow> length report \<le> 1
       | Raised e \<Rightarrow> True)) \<and>
   (distinct (map (\<lambda>e. attr_name (fst e)) (args_definitions P)) \<and>
    all_errors R P ns \<noteq> [] \<and> \<not> any_raises R P ns \<longrightarrow>
      result (validate_args R P ns) = Exited 1 (map ValidationError (all_errors R P ns)) \<and>
      validator_calls (validate_args R P ns) = all_calls R P ns)"
  using required_missing [of P name d R argv0 config_files environ]
    validate_args_outcome [of P R ns] validate_args_raises [of P R ns]
  by auto

text \<open>
  C4, as the code has it. \<^verbatim>\<open>_validate_args\<close> ends the process itself: with no two
  definitions on one attribute, it returns exactly when no definition has a type mismatch
  or a validator failure, and otherwise prints every line of the report and exits with
  status 1; unless a conversion raises an exception that is not caught, which then leaves
  \<^verbatim>\<open>_validate_args\<close> as it is.
\<close>

theorem validation_exit:
  assumes "distinct (map (\<lambda>e. attr_name (fst e)) (args_definitions P))"
  shows "(any_raises R P ns \<and> (\<exists>e. result (validate_args R P ns) = Raised e)) \<or>
         (\<not> any_raises R P ns \<and> all_errors R P ns = [] \<and>
          (\<exists>ns'. result (validate_args R P ns) = Returned ns')) \<or>
         (\<not> any_raises R P ns \<and> all_errors R P ns \<noteq> [] \<and>
          result (validate_args R P ns) = Exited 1 (map ValidationError (all_errors R P ns)))"
  using validate_args_outcome [OF assms, of R ns] validate_args_raises [OF assms, of R ns]
  by (cases "all_errors R P ns = []") (simp_all del: One_nat_def, blast+)


section \<open>Runs on concrete command lines\<close>

text \<open>The definitions to unfold when a run is evaluated.\<close>

lemmas registry_eval =
  add_argument_def new_parser_def no_kwargs_def flag_name_def default_env_var_def
  infer_type_def is_required_arg_def required_patterns_def any_word_in_def
  lower_def lower_char_def upper_def upper_char_def dash_to_underscore_def Let_def
  plain_runtime_def

lemmas parse_eval =
  parse_args_def on_system_exit_def normalize_argv_def load_config_defaults_def
  load_env_defaults_def env_step_def env_convert_def merged_default_def make_action_def
  initial_namespace_def token_list_def argparse_parse_args_def consume_one_def
  finalize_one_def validate_args_def validate_step_def type_validation_def
  getattr_or_none_def unicode_safe_value_def dash_to_underscore_def dest_of_def attr_name_def
  plain_runtime_def clean_whitespace_def strip_ws_def ascii_space_def int_space_def
  int_of_str_def
  digit_val_def value_type_name_def lower_def lower_char_def

lemma input_count_parser:
  "add_argument plain_runtime
     (add_argument plain_runtime (new_parser ''my-tool'' True) ''input'' no_kwargs)
     ''count'' no_kwargs =
   \<lparr>args_definitions =
      [(''--input'', \<lparr>arg_type = TStr, arg_default = VStr [], arg_required = True,
                     arg_env_var = ''MY_TOOL_INPUT'', arg_validator = None\<rparr>),
       (''--count'', \<lparr>arg_type = TInt, arg_default = VInt 0, arg_required = False,
                     arg_env_var = ''MY_TOOL_COUNT'', arg_validator = None\<rparr>)],
    env_prefix = ''MY_TOOL'', unicode_safe = True\<rparr>"
  by (simp add: registry_eval)

lemma count_input_parser:
  "add_argument plain_runtime
     (add_argument plain_runtime (new_parser ''my-tool'' True) ''count'' no_kwargs)
     ''input'' no_kwargs =
   \<lparr>args_definitions =
      [(''--count'', \<lparr>arg_type = TInt, arg_default = VInt 0, arg_required = False,
                     arg_env_var = ''MY_TOOL_COUNT'', arg_validator = None\<rparr>),
       (''--input'', \<lparr>arg_type = TStr, arg_default = VStr [], arg_required = True,
                     arg_env_var = ''MY_TOOL_INPUT'', arg_validator = None\<rparr>)],
    env_prefix = ''MY_TOOL'', unicode_safe = True\<rparr>"
  by (simp add: registry_eval)

text \<open>
  The claim as written fails. With \<^verbatim>\<open>--input\<close> required and missing and
  \<^verbatim>\<open>--count abc\<close> on the command line, the report has one entry, in either order of
  declaration; with the mismatch in a config file instead, it has the one entry for the
  missing argument.
\<close>

theorem validation_report_counterexample:
  "result (parse_args plain_runtime
     (add_argument plain_runtime
        (add_argument plain_runtime (new_parser ''my-tool'' True) ''input'' no_kwargs)
        ''count'' no_kwargs)
     [] Map.empty [(''--count'', Some ''abc'')]) =
     Exited 2 [InvalidValue ''--count'' ''abc''] \<and>
   result (parse_args plain_runtime
     (add_argument plain_runtime
        (add_argument plain_runtime (new_parser ''my-tool'' True) ''count'' no_kwargs)
        ''input'' no_kwargs)
     [] Map.empty [(''--count'', Some ''abc'')]) =
     Exited 2 [InvalidValue ''--count'' ''abc''] \<and>
   result (parse_args plain_runtime
     (add_argument plain_runtime
        (add_argument plain_runtime (new_parser ''my-tool'' True) ''input'' no_kwargs)
        ''count'' no_kwargs)
     [Some [''--count'' \<mapsto> VList [VInt 1]]] Map.empty []) =
     Exited 2 [MissingRequired [''--input'']]"
  unfolding input_count_parser count_input_parser
  by (simp add: parse_eval)


lemma count_parser:
  "add_argument plain_runtime (new_parser ''my-tool'' True) ''count'' no_kwargs =
   \<lparr>args_definitions =
      [(''--count'', \<lparr>arg_type = TInt, arg_default = VInt 0, arg_required = False,
                     arg_env_var = ''MY_TOOL_COUNT'', arg_validator = None\<rparr>)],
    env_prefix = ''MY_TOOL'', unicode_safe = True\<rparr>"
  by (simp add: registry_eval)

text \<open>
  The claim as written fails: a config file that gives a list for an Integer argument makes
  \<^verbatim>\<open>_validate_args\<close> exit with status 1.
\<close>

theorem validation_exit_counterexample:
  "result (validate_args plain_runtime
     (add_argument plain_runtime (new_parser ''my-tool'' True) ''count'' no_kwargs)
     [''count'' \<mapsto> VList [VInt 1]]) =
     Exited 1 [ValidationError ''--count: Expected int, got list''] \<and>
   result (parse_args plain_runtime
     (add_argument plain_runtime (new_parser ''my-tool'' True) ''count'' no_kwargs)
     [Some [''--count'' \<mapsto> VList [VInt 1]]] Map.empty []) =
     Exited 1 [ValidationError ''--count: Expected int, got list'']"
  unfolding count_parser
  by (simp add: parse_eval)

theorem validation_exit_witness:
  "result (validate_args plain_runtime
     (add_argument plain_runtime (new_parser ''my-tool'' True) ''count'' no_kwargs)
     [''count'' \<mapsto> VList [VInt 1]]) =
     Exited 1 [ValidationError ''--count: Expected int, got list''] \<and>
   (\<exists>ns'. result (validate_args plain_runtime
     (add_argument plain_runtime (new_parser ''my-tool'' True) ''count'' no_kwargs)
     [''count'' \<mapsto> VInt 3]) = Returned ns')"
proof -
  let ?P = "add_argument plain_runtime (new_parser ''my-tool'' True) ''count'' no_kwargs"
  have dist: "distinct (map (\<lambda>e. attr_name (fst e)) (args_definitions ?P))"
    unfolding count_parser by simp
  have e1: "all_errors plain_runtime ?P [''count'' \<mapsto> VList [VInt 1]] =
              [''--count: Expected int, got list'']"
    unfolding count_parser
    by (simp add: all_errors_def def_errors_def parse_eval)
  have e2: "all_errors plain_runtime ?P [''count'' \<mapsto> VInt 3] = []"
    unfolding count_parser
    by (simp add: all_errors_def def_errors_def parse_eval)
  have not_raised: "\<not> any_raises plain_runtime ?P [''count'' \<mapsto> VList [VInt 1]]"
    "\<not> any_raises plain_runtime ?P [''count'' \<mapsto> VInt 3]"
    unfolding count_parser by (simp_all add: any_raises_def def_raises_def parse_eval)
  from validation_exit [OF dist, of plain_runtime "[''count'' \<mapsto> VList [VInt 1]]"]
    validation_exit [OF dist, of plain_runtime "[''count'' \<mapsto> VInt 3]"]
  show ?thesis
    unfolding e1 e2 using not_raised by simp
qed

lemma enable_cache_parser:
  "add_argument plain_runtime (new_parser ''my-tool'' True) ''enable-cache'' no_kwargs =
   \<lparr>args_definitions =
      [(''--enable-cache'', \<lparr>arg_type = TBool, arg_default = VNone, arg_required = False,
                     arg_env_var = ''MY_TOOL_ENABLE_CACHE'', arg_validator = None\<rparr>)],
    env_prefix = ''MY_TOOL'', unicode_safe = True\<rparr>"
  by (simp add: registry_eval)

lemma rate_name_input_parser:
  "add_argument plain_runtime
     (add_argument plain_runtime
        (add_argument plain_runtime (new_parser ''my-tool'' True) ''count'' no_kwargs)
        ''rate'' no_kwargs)
     ''name'' no_kwargs =
   \<lparr>args_definitions =
      [(''--count'', \<lparr>arg_type = TInt, arg_default = VInt 0, arg_required = False,
                     arg_env_var = ''MY_TOOL_COUNT'', arg_validator = None\<rparr>),
       (''--rate'', \<lparr>arg_type = TFloat, arg_default = VFloat 0, arg_required = False,
                     arg_env_var = ''MY_TOOL_RATE'', arg_validator = None\<rparr>),
       (''--name'', \<lparr>arg_type = TStr, arg_default = VStr [], arg_required = False,
                     arg_env_var = ''MY_TOOL_NAME'', arg_validator = None\<rparr>)],
    env_prefix = ''MY_TOOL'', unicode_safe = True\<rparr>"
  by (simp add: registry_eval)

lemma input_parser:
  "add_argument plain_runtime (new_parser ''my-tool'' True) ''input'' no_kwargs =
   \<lparr>args_definitions =
      [(''--input'', \<lparr>arg_type = TStr, arg_default = VStr [], arg_required = True,
                     arg_env_var = ''MY_TOOL_INPUT'', arg_validator = None\<rparr>)],
    env_prefix = ''MY_TOOL'', unicode_safe = True\<rparr>"
  by (simp add: registry_eval)

text \<open>
  C5 says that a definition with no declared default and no value from any tier resolves
  to the zero value of its type when it is not required, \<^verbatim>\<open>false\<close> for a Boolean.
  The code at the input where it does otherwise: \<^verbatim>\<open>add_argument("enable-cache")\<close>
  with nothing in the config files, the environment or the command line. The run returns,
  and the value is \<^verbatim>\<open>None\<close>: \<^verbatim>\<open>add_argument\<close> leaves a Boolean without a
  default, and \<^verbatim>\<open>parse_args\<close> passes \<^verbatim>\<open>default=None\<close> to the \<^verbatim>\<open>store_true\<close>
  flag. For an Integer, a Float and a String the run returns the zero value, and a required
  argument that nothing gives ends the run with the error of \<^verbatim>\<open>argparse\<close>.
\<close>

theorem boolean_zero_value_failing_input:
  "(\<exists>ns. result (parse_args plain_runtime
            (add_argument plain_runtime (new_parser ''my-tool'' True) ''enable-cache'' no_kwargs)
            [] Map.empty []) = Returned ns \<and>
        ns ''enable_cache'' = Some VNone \<and> ns ''enable_cache'' \<noteq> Some (VBool False)) \<and>
   (\<exists>ns. result (parse_args plain_runtime
            (add_argument plain_runtime
               (add_argument plain_runtime
                  (add_argument plain_runtime (new_parser ''my-tool'' True) ''count'' no_kwargs)
                  ''rate'' no_kwargs)
               ''name'' no_kwargs)
            [] Map.empty []) = Returned ns \<and>
        ns ''count'' = Some (VInt 0) \<and> ns ''rate'' = Some (VFloat 0) \<and>
        ns ''name'' = Some (VStr [])) \<and>
   result (parse_args plain_runtime
      (add_argument plain_runtime (new_parser ''my-tool'' True) ''input'' no_kwargs)
      [] Map.empty []) = Exited 2 [MissingRequired [''--input'']]"
  unfolding enable_cache_parser rate_name_input_parser input_parser
  by (simp add: parse_eval)

text \<open>Two validators: one that accepts every value, one that accepts Booleans only.\<close>

definition accepts_all :: "rat pyval \<Rightarrow> string option" where
  "accepts_all v = None"

definition accepts_booleans :: "rat pyval \<Rightarrow> string option" where
  "accepts_booleans v = (case v of VBool b \<Rightarrow> None | _ \<Rightarrow> Some ''not a boolean'')"

lemma verbose_parser:
  "add_argument plain_runtime (new_parser ''my-tool'' True) ''verbose''
     (no_kwargs\<lparr>kw_validator := Some check\<rparr>) =
   \<lparr>args_definitions =
      [(''--verbose'', \<lparr>arg_type = TBool, arg_default = VNone, arg_required = False,
                     arg_env_var = ''MY_TOOL_VERBOSE'', arg_validator = Some check\<rparr>)],
    env_prefix = ''MY_TOOL'', unicode_safe = True\<rparr>"
  by (simp add: registry_eval)

text \<open>
  C7 says that the validator is called with the final, coerced value. The code at the
  input where it does otherwise: a Boolean argument with a validator, and a config file
  that gives the string \<^verbatim>\<open>yes\<close> for it. The value stored is \<^verbatim>\<open>True\<close>, the
  validator is called once, with the string \<^verbatim>\<open>yes\<close>; a validator that accepts
  Booleans only ends the run although the stored value is a Boolean.
\<close>

theorem validator_value_failing_input:
  "(\<exists>ns. result (parse_args plain_runtime
             (add_argument plain_runtime (new_parser ''my-tool'' True) ''verbose''
                (no_kwargs\<lparr>kw_validator := Some accepts_all\<rparr>))
             [Some [''--verbose'' \<mapsto> VStr ''yes'']] Map.empty []) = Returned ns \<and>
         ns ''verbose'' = Some (VBool True)) \<and>
   validator_calls (parse_args plain_runtime
      (add_argument plain_runtime (new_parser ''my-tool'' True) ''verbose''
         (no_kwargs\<lparr>kw_validator := Some accepts_all\<rparr>))
      [Some [''--verbose'' \<mapsto> VStr ''yes'']] Map.empty []) = [(''--verbose'', VStr ''yes'')] \<and>
   result (parse_args plain_runtime
      (add_argument plain_runtime (new_parser ''my-tool'' True) ''verbose''
         (no_kwargs\<lparr>kw_validator := Some accepts_booleans\<rparr>))
      [Some [''--verbose'' \<mapsto> VStr ''yes'']] Map.empty []) =
     Exited 1 [ValidationError ''--verbose: not a boolean'']"
  unfolding verbose_parser
  by (simp add: parse_eval accepts_all_def accepts_booleans_def Let_def)


lemma debug_parser:
  "add_argument plain_runtime (new_parser ''my-tool'' True) ''debug'' no_kwargs =
   \<lparr>args_definitions =
      [(''--debug'', \<lparr>arg_type = TBool, arg_default = VNone, arg_required = False,
                     arg_env_var = ''MY_TOOL_DEBUG'', arg_validator = None\<rparr>)],
    env_prefix = ''MY_TOOL'', unicode_safe = True\<rparr>"
  by (simp add: registry_eval)

text \<open>
  C6 says that the coercion of a raw string token to a Boolean gives true for the tokens
  \<^verbatim>\<open>true\<close>, \<^verbatim>\<open>1\<close>, \<^verbatim>\<open>yes\<close>, \<^verbatim>\<open>on\<close> in any case of the letters, and
  false for every other token and for an absent flag, with no third state. The code at
  the inputs where it does otherwise, for \<^verbatim>\<open>add_argument("debug")\<close> and an empty
  command line. A config file that gives the string \<^verbatim>\<open>false\<close>, or \<^verbatim>\<open>nope\<close>:
  the run returns, and the value is true, because \<^verbatim>\<open>_validate_args\<close> converts the
  string with \<^verbatim>\<open>bool(value)\<close> and not by the set of tokens. No value from any
  tier: the run returns, and the value is \<^verbatim>\<open>None\<close>, neither false nor true,
  because \<^verbatim>\<open>parse_args\<close> passes \<^verbatim>\<open>default=None\<close> to the \<^verbatim>\<open>store_true\<close>
  flag. For a token of the environment the code does what the claim says (the last two
  runs, and \<open>boolean_coercion\<close> in general).
\<close>

theorem boolean_coercion_failing_input:
  "(\<exists>ns. result (parse_args plain_runtime
             (add_argument plain_runtime (new_parser ''my-tool'' True) ''debug'' no_kwargs)
             [Some [''--debug'' \<mapsto> VStr ''false'']] Map.empty []) = Returned ns \<and>
         ns ''debug'' = Some (VBool True) \<and> ns ''debug'' \<noteq> Some (VBool False)) \<and>
   (\<exists>ns. result (parse_args plain_runtime
             (add_argument plain_runtime (new_parser ''my-tool'' True) ''debug'' no_kwargs)
             [Some [''--debug'' \<mapsto> VStr ''nope'']] Map.empty []) = Returned ns \<and>
         ns ''debug'' = Some (VBool True) \<and> ns ''debug'' \<noteq> Some (VBool False)) \<and>
   (\<exists>ns. result (parse_args plain_runtime
             (add_argument plain_runtime (new_parser ''my-tool'' True) ''debug'' no_kwargs)
             [] Map.empty []) = Returned ns \<and>
         ns ''debug'' = Some VNone \<and> ns ''debug'' \<noteq> Some (VBool False) \<and>
         ns ''debug'' \<noteq> Some (VBool True)) \<and>
   (\<exists>ns. result (parse_args plain_runtime
             (add_argument plain_runtime (new_parser ''my-tool'' True) ''debug'' no_kwargs)
             [] [''MY_TOOL_DEBUG'' \<mapsto> ''false''] []) = Returned ns \<and>
         ns ''debug'' = Some (VBool False)) \<and>
   (\<exists>ns. result (parse_args plain_runtime
             (add_argument plain_runtime (new_parser ''my-tool'' True) ''debug'' no_kwargs)
             [] [''MY_TOOL_DEBUG'' \<mapsto> ''On''] []) = Returned ns \<and>
         ns ''debug'' = Some (VBool True))"
  unfolding debug_parser
  by (simp add: parse_eval)

lemma count_default_parser:
  "add_argument plain_runtime (new_parser ''my-tool'' True) ''count''
     (no_kwargs\<lparr>kw_default := Some (VInt 5)\<rparr>) =
   \<lparr>args_definitions =
      [(''--count'', \<lparr>arg_type = TInt, arg_default = VInt 5, arg_required = False,
                     arg_env_var = ''MY_TOOL_COUNT'', arg_validator = None\<rparr>)],
    env_prefix = ''MY_TOOL'', unicode_safe = True\<rparr>"
  by (simp add: registry_eval)

theorem command_line_wins_witness:
  "(\<exists>ns. result (parse_args plain_runtime
            (add_argument plain_runtime (new_parser ''my-tool'' True) ''count''
               (no_kwargs\<lparr>kw_default := Some (VInt 5)\<rparr>))
            [Some [''--count'' \<mapsto> VInt 7]] [''MY_TOOL_COUNT'' \<mapsto> ''9'']
            [(''--count'', Some ''42'')]) = Returned ns \<and>
        ns ''count'' = Some (VInt 42)) \<and>
   (\<exists>ns. result (parse_args plain_runtime
            (add_argument plain_runtime (new_parser ''my-tool'' True) ''count''
               (no_kwargs\<lparr>kw_default := Some (VInt 5)\<rparr>))
            [Some [''--count'' \<mapsto> VInt 7]] [''MY_TOOL_COUNT'' \<mapsto> ''9''] []) = Returned ns \<and>
        ns ''count'' = Some (VInt 9)) \<and>
   (\<exists>ns. result (parse_args plain_runtime
            (add_argument plain_runtime (new_parser ''my-tool'' True) ''count''
               (no_kwargs\<lparr>kw_default := Some (VInt 5)\<rparr>))
            [Some [''--count'' \<mapsto> VInt 7]] Map.empty []) = Returned ns \<and>
        ns ''count'' = Some (VInt 7)) \<and>
   (\<exists>ns. result (parse_args plain_runtime
            (add_argument plain_runtime (new_parser ''my-tool'' True) ''count''
               (no_kwargs\<lparr>kw_default := Some (VInt 5)\<rparr>))
            [] Map.empty []) = Returned ns \<and>
        ns ''count'' = Some (VInt 5))"
proof -
  let ?d = "\<lparr>arg_type = TInt, arg_default = VInt 5, arg_required = False,
             arg_env_var = ''MY_TOOL_COUNT'', arg_validator = None\<rparr> :: rat argdef"
  let ?P = "\<lparr>args_definitions = [(''--count'', ?d)], env_prefix = ''MY_TOOL'',
             unicode_safe = True\<rparr>"
  let ?cfg = "[Some [''--count'' \<mapsto> VInt 7]] :: (string \<rightharpoonup> rat pyval) option list"
  let ?env = "[''MY_TOOL_COUNT'' \<mapsto> ''9'']"
  have sole: "sole_attribute (args_definitions ?P) ''--count''"
    by (simp add: sole_attribute_def dest_of_def attr_name_def)
  have argv: "normalize_argv plain_runtime ?P [(''--count'', Some ''42'')] =
                [] @ (''--count'', Some ''42'') # [] \<and> ''--count'' \<notin> fst ` set []"
    by (simp add: parse_eval)
  have absent: "''--count'' \<notin> fst ` set (normalize_argv plain_runtime ?P [])"
    by (simp add: normalize_argv_def)
  note resolved = resolved_default_def validated_value_def argparse_default_def
  obtain ns1 where ret1: "result (parse_args plain_runtime ?P ?cfg ?env
                            [(''--count'', Some ''42'')]) = Returned ns1"
    by (simp add: parse_eval)
  obtain ns2 where ret2: "result (parse_args plain_runtime ?P ?cfg ?env []) = Returned ns2"
    by (simp add: parse_eval)
  obtain ns3 where ret3: "result (parse_args plain_runtime ?P ?cfg Map.empty []) = Returned ns3"
    by (simp add: parse_eval)
  obtain ns4 where ret4: "result (parse_args plain_runtime ?P [] Map.empty []) = Returned ns4"
    by (simp add: parse_eval)
  from command_line_wins [where P = ?P and name = "''--count''" and d = ?d, OF _ _ sole ret1,
      THEN conjunct1, rule_format, OF _ _ argv]
  have "ns1 (attr_name ''--count'') = command_line_value plain_runtime True TInt (Some ''42'')"
    by auto
  then have v1: "ns1 ''count'' = Some (VInt 42)"
    by (simp add: command_line_value_def parse_eval)
  from command_line_wins [where P = ?P and name = "''--count''" and d = ?d, OF _ _ sole ret2,
      THEN conjunct2, rule_format, OF _ _ absent]
  have v2: "ns2 ''count'' = Some (VInt 9)"
    by (simp add: resolved parse_eval)
  from command_line_wins [where P = ?P and name = "''--count''" and d = ?d, OF _ _ sole ret3,
      THEN conjunct2, rule_format, OF _ _ absent]
  have v3: "ns3 ''count'' = Some (VInt 7)"
    by (simp add: resolved parse_eval)
  from command_line_wins [where P = ?P and name = "''--count''" and d = ?d, OF _ _ sole ret4,
      THEN conjunct2, rule_format, OF _ _ absent]
  have v4: "ns4 ''count'' = Some (VInt 5)"
    by (simp add: resolved parse_eval)
  from ret1 ret2 ret3 ret4 v1 v2 v3 v4 show ?thesis
    unfolding count_default_parser by blast
qed

text \<open>A validator for a level that may be ten at most.\<close>

definition at_most_ten :: "rat pyval \<Rightarrow> string option" where
  "at_most_ten v = (case v of VInt i \<Rightarrow> if i \<le> 10 then None else Some ''too high''
                    | _ \<Rightarrow> None)"

lemma count_level_parser:
  "add_argument plain_runtime
     (add_argument plain_runtime (new_parser ''my-tool'' True) ''count'' no_kwargs)
     ''level'' (no_kwargs\<lparr>kw_type := Some TInt, kw_validator := Some at_most_ten\<rparr>) =
   \<lparr>args_definitions =
      [(''--count'', \<lparr>arg_type = TInt, arg_default = VInt 0, arg_required = False,
                     arg_env_var = ''MY_TOOL_COUNT'', arg_validator = None\<rparr>),
       (''--level'', \<lparr>arg_type = TInt, arg_default = VInt 0, arg_required = False,
                     arg_env_var = ''MY_TOOL_LEVEL'', arg_validator = Some at_most_ten\<rparr>)],
    env_prefix = ''MY_TOOL'', unicode_safe = True\<rparr>"
  by (simp add: registry_eval)

theorem validation_report_witness:
  "validator_calls (parse_args plain_runtime
     (add_argument plain_runtime
        (add_argument plain_runtime (new_parser ''my-tool'' True) ''input'' no_kwargs)
        ''count'' no_kwargs)
     [] Map.empty [(''--count'', Some ''abc'')]) = [] \<and>
   result (validate_args plain_runtime
     (add_argument plain_runtime
        (add_argument plain_runtime (new_parser ''my-tool'' True) ''count'' no_kwargs)
        ''level'' (no_kwargs\<lparr>kw_type := Some TInt, kw_validator := Some at_most_ten\<rparr>))
     [''count'' \<mapsto> VList [VInt 1], ''level'' \<mapsto> VInt 11]) =
     Exited 1 [ValidationError ''--count: Expected int, got list'',
               ValidationError ''--level: too high'']"
proof -
  let ?P = "add_argument plain_runtime
     (add_argument plain_runtime (new_parser ''my-tool'' True) ''input'' no_kwargs)
     ''count'' no_kwargs"
  let ?Q = "add_argument plain_runtime
        (add_argument plain_runtime (new_parser ''my-tool'' True) ''count'' no_kwargs)
        ''level'' (no_kwargs\<lparr>kw_type := Some TInt, kw_validator := Some at_most_ten\<rparr>)"
  let ?ns = "[''count'' \<mapsto> VList [VInt 1], ''level'' \<mapsto> VInt 11] :: rat namespace"
  have p1: "map_of (args_definitions ?P) ''--input'' =
              Some \<lparr>arg_type = TStr, arg_default = VStr [], arg_required = True,
                    arg_env_var = ''MY_TOOL_INPUT'', arg_validator = None\<rparr>"
    unfolding input_count_parser by simp
  have p2: "''--input'' \<notin> fst ` set (normalize_argv plain_runtime ?P [(''--count'', Some ''abc'')])"
    unfolding input_count_parser by (simp add: parse_eval)
  have q1: "distinct (map (\<lambda>e. attr_name (fst e)) (args_definitions ?Q))"
    unfolding count_level_parser by (simp add: attr_name_def dash_to_underscore_def)
  have q2: "all_errors plain_runtime ?Q ?ns =
              [''--count: Expected int, got list'', ''--level: too high'']"
    unfolding count_level_parser
    by (simp add: all_errors_def def_errors_def parse_eval at_most_ten_def)
  have q3: "\<not> any_raises plain_runtime ?Q ?ns"
    unfolding count_level_parser by (simp add: any_raises_def def_raises_def parse_eval)
  from validation_report [where P = ?P and name = "''--input''" and R = plain_runtime
      and ?argv0.0 = "[(''--count'', Some ''abc'')]" and config_files = "[]"
      and environ = Map.empty, THEN conjunct1, rule_format, OF conjI, OF p1 conjI, OF _ p2]
  have first: "validator_calls (parse_args plain_runtime ?P [] Map.empty
                 [(''--count'', Some ''abc'')]) = []"
    by simp
  from q1 q2 q3 have q: "distinct (map (\<lambda>e. attr_name (fst e)) (args_definitions ?Q)) \<and>
      all_errors plain_runtime ?Q ?ns \<noteq> [] \<and> \<not> any_raises plain_runtime ?Q ?ns"
    by simp
  from validation_report [where P = ?Q and R = plain_runtime and ns = ?ns,
      THEN conjunct2, rule_format, OF q] q2
  have "result (validate_args plain_runtime ?Q ?ns) =
          Exited 1 [ValidationError ''--count: Expected int, got list'',
                    ValidationError ''--level: too high'']"
    by simp
  with first show ?thesis by simp
qed

end
